theory Spec2Isabelle
  imports Complex_Main "HOL-Library.Log_Nat"
begin

section \<open>The transfer state machine of libnitroshare (transfer.cpp)\<close>

text \<open>
  The development embeds \<^verbatim>\<open>src/libnitroshare/src/transfer/transfer.cpp\<close>: the class
  \<^verbatim>\<open>TransferPrivate\<close> becomes a record, each member function a HOL function from the
  object before the call to the object after it. Everything the code does to its
  collaborators (the transport, the logger, the handler registry, the current item) and
  every Qt signal it emits is appended, in program order, to the field \<open>trace\<close>.
  Dereferencing \<^verbatim>\<open>currentItem\<close> when it is null or already deleted is undefined
  behaviour in C++; the model returns a \<open>fault\<close> there.
\<close>

subsection \<open>Packets, JSON values and items\<close>

datatype packet_type = Success | Error | Json | Binary

text \<open>A \<^verbatim>\<open>Packet\<close>: its type and its content (a \<^verbatim>\<open>QByteArray\<close>, here a list of bytes).\<close>

record packet =
  ptype :: packet_type
  content :: string

text \<open>
  \<^verbatim>\<open>QJsonValue\<close>. Only strings are ever read back by the transfer
  (\<^verbatim>\<open>value(key).toString()\<close>); \<open>JUndefined\<close> is what \<^verbatim>\<open>QJsonObject::value\<close> returns
  for a key the object does not hold.
\<close>

datatype json_value =
  JUndefined | JNull | JBool bool | JNumber int | JString string | JArray | JObject

type_synonym json_object = "string \<rightharpoonup> json_value"

definition contains :: "json_object \<Rightarrow> string \<Rightarrow> bool" where
  "contains object k = (object k \<noteq> None)"

definition jvalue :: "json_object \<Rightarrow> string \<Rightarrow> json_value" where
  "jvalue object k = (case object k of None \<Rightarrow> JUndefined | Some v \<Rightarrow> v)"

text \<open>\<^verbatim>\<open>QJsonValue::toString()\<close>: the string of a string value, the null string otherwise.\<close>

fun toString :: "json_value \<Rightarrow> string" where
  "toString (JString s) = s"
| "toString _ = []"

text \<open>
  Modelled from the spec: the \<^verbatim>\<open>Item\<close> interface (nitroshare/item.h is not among the
  sources). An item has a name and a size, \<^verbatim>\<open>open\<close> succeeds or fails, \<^verbatim>\<open>read\<close> returns
  the next chunk and the empty chunk when drained, \<^verbatim>\<open>close\<close> closes it.
\<close>

record item =
  item_name :: string
  item_size :: int
  can_open :: bool
  chunks :: "string list"
  is_open :: bool

definition item_open :: "item \<Rightarrow> bool \<times> item" where
  "item_open it = (if can_open it then (True, it\<lparr>is_open := True\<rparr>) else (False, it))"

definition item_read :: "item \<Rightarrow> string \<times> item" where
  "item_read it = (case chunks it of [] \<Rightarrow> ([], it) | c # cs \<Rightarrow> (c, it\<lparr>chunks := cs\<rparr>))"

definition item_close :: "item \<Rightarrow> item" where
  "item_close it = it\<lparr>is_open := False\<rparr>"

text \<open>
  The pointer \<^verbatim>\<open>Item *currentItem\<close>: null after construction, pointing to a live item,
  or dangling after \<^verbatim>\<open>delete currentItem\<close> in \<^verbatim>\<open>processNext\<close>.
\<close>

datatype item_ref = Null | Item item | Dangling

text \<open>
  Modelled from the spec: the \<^verbatim>\<open>Bundle\<close> (nitroshare/bundle.h is not among the sources):
  an ordered sequence of items with a total size. \<^verbatim>\<open>rowCount\<close> is the number of rows;
  \<^verbatim>\<open>index(i, 0).data(Qt::UserRole).value<Item*>()\<close> is the item of row \<open>i\<close> and the null
  pointer when there is no such row.
\<close>

record item_bundle =
  items :: "item list"
  totalSize :: int

definition rowCount :: "item_bundle \<Rightarrow> int" where
  "rowCount b = int (length (items b))"

definition item_at :: "item_bundle \<Rightarrow> int \<Rightarrow> item option" where
  "item_at b i = (if 0 \<le> i \<and> i < rowCount b then Some (items b ! nat i) else None)"

subsection \<open>Decimal numbers in strings\<close>

text \<open>
  \<^verbatim>\<open>QString::number\<close> of an integer, base 10: the sender writes \<^verbatim>\<open>count\<close> and
  \<^verbatim>\<open>size\<close> with it.
\<close>

definition digit_char :: "nat \<Rightarrow> char" where
  "digit_char d = ''0123456789'' ! d"

function decimal :: "nat \<Rightarrow> string" where
  "decimal n = (if n < 10 then [digit_char n] else decimal (n div 10) @ [digit_char (n mod 10)])"
  by pat_completeness auto
termination
  by (relation "measure id") auto

declare decimal.simps [simp del]

definition number :: "int \<Rightarrow> string" where
  "number n = (if n < 0 then CHR ''-'' # decimal (nat (- n)) else decimal (nat n))"

text \<open>
  \<^verbatim>\<open>QString::toLongLong()\<close> and \<^verbatim>\<open>QString::toInt()\<close>, base 10, as Qt documents them:
  white space around the number is ignored, a sign may precede the digits, and the
  result is 0 when the text is not a number or the number does not fit the result type
  (64 bits for \<^verbatim>\<open>toLongLong\<close>, 32 bits for \<^verbatim>\<open>toInt\<close>).
\<close>

definition digit_of :: "char \<Rightarrow> nat option" where
  "digit_of c = (let k = (of_char c :: nat) in if 48 \<le> k \<and> k \<le> 57 then Some (k - 48) else None)"

fun parse_digits :: "nat \<Rightarrow> string \<Rightarrow> nat option" where
  "parse_digits acc [] = Some acc"
| "parse_digits acc (c # cs) =
     (case digit_of c of None \<Rightarrow> None | Some d \<Rightarrow> parse_digits (10 * acc + d) cs)"

definition is_space :: "char \<Rightarrow> bool" where
  "is_space c = (let k = (of_char c :: nat) in k = 32 \<or> (9 \<le> k \<and> k \<le> 13))"

definition trimmed :: "string \<Rightarrow> string" where
  "trimmed s = rev (dropWhile is_space (rev (dropWhile is_space s)))"

definition parse_integer :: "string \<Rightarrow> int option" where
  "parse_integer s =
     (case trimmed s of
        [] \<Rightarrow> None
      | c # cs \<Rightarrow>
          if c = CHR ''-'' then
            (if cs = [] then None else map_option (\<lambda>n. - int n) (parse_digits 0 cs))
          else if c = CHR ''+'' then
            (if cs = [] then None else map_option int (parse_digits 0 cs))
          else map_option int (parse_digits 0 (c # cs)))"

definition toLongLong :: "string \<Rightarrow> int" where
  "toLongLong s =
     (case parse_integer s of
        None \<Rightarrow> 0
      | Some v \<Rightarrow> if - (2 ^ 63) \<le> v \<and> v < 2 ^ 63 then v else 0)"

definition toInt :: "string \<Rightarrow> int" where
  "toInt s =
     (case parse_integer s of
        None \<Rightarrow> 0
      | Some v \<Rightarrow> if - (2 ^ 31) \<le> v \<and> v < 2 ^ 31 then v else 0)"

subsection \<open>The percentage computed in double precision\<close>

text \<open>
  \<^verbatim>\<open>updateProgress\<close> computes
  \<^verbatim>\<open>static_cast<int>(100.0 * static_cast<double>(bytesTransferred) / static_cast<double>(bytesTotal))\<close>.
  A double is modelled by the real number it denotes. Every conversion and every
  arithmetic operation rounds its exact result to the nearest number with a 53-bit
  significand, ties to the even significand (IEEE 754 binary64, the default rounding
  mode). Overflow to infinity and subnormal numbers are left out: they are out of reach
  of 64-bit operands here. The cast to \<^verbatim>\<open>int\<close> truncates towards zero and is undefined
  behaviour when the truncated value is not a 32-bit \<^verbatim>\<open>int\<close>.
\<close>

text \<open>The binary exponent \<open>\<lfloor>log\<^sub>2 x\<rfloor>\<close> of a positive number.\<close>

definition binade :: "real \<Rightarrow> int" where
  "binade x = (if 1 \<le> x then bitlen \<lfloor>x\<rfloor> - 1 else - bitlen (\<lceil>1 / x\<rceil> - 1))"

definition round_even :: "real \<Rightarrow> int" where
  "round_even x =
     (let f = \<lfloor>x\<rfloor>; r = x - of_int f
      in if r < 1 / 2 then f else if 1 / 2 < r then f + 1 else if even f then f else f + 1)"

definition to_double :: "real \<Rightarrow> real" where
  "to_double x =
     (if x = 0 then 0
      else let e = binade \<bar>x\<bar> - 52
           in sgn x * of_int (round_even (\<bar>x\<bar> / 2 powi e)) * 2 powi e)"

definition trunc_to_int :: "real \<Rightarrow> int" where
  "trunc_to_int x = (if 0 \<le> x then \<lfloor>x\<rfloor> else \<lceil>x\<rceil>)"

datatype fault = NullDeref | UseAfterDelete | CastOutOfRange

definition percent :: "int \<Rightarrow> int \<Rightarrow> fault + int" where
  "percent transferred whole =
     (let a = to_double (of_int transferred);
          b = to_double (of_int whole);
          q = to_double (to_double (100 * a) / b);
          t = trunc_to_int q
      in if - (2 ^ 31) \<le> t \<and> t < 2 ^ 31 then Inr t else Inl CastOutOfRange)"

subsection \<open>The transfer object\<close>

datatype transfer_direction = Send | Receive

datatype transfer_state = Connecting | InProgress | Succeeded | Failed

datatype protocol_state = TransferHeader | ItemHeader | ItemContent | Finished

text \<open>
  What the transfer does to the outside world: the packets it hands to the transport and
  \<^verbatim>\<open>transport->close()\<close>, the four signals of \<^verbatim>\<open>Transfer\<close>, the message it logs, the
  handler it asks the registry for, and the calls on the current item.
\<close>

datatype action =
    SendPacket packet
  | CloseTransport
  | StateChanged transfer_state
  | ProgressChanged int
  | ErrorChanged string
  | DeviceNameChanged string
  | LogError string
  | FindHandler string
  | ItemOpen string
  | ItemRead string
  | ItemWrite string string
  | ItemClose string
  | ItemDelete string

text \<open>
  The members of \<^verbatim>\<open>TransferPrivate\<close>. Their declarations are in transfer_p.h, which is
  not among the sources; the calls that set the counters (\<^verbatim>\<open>rowCount\<close> and \<^verbatim>\<open>toInt\<close> for
  the item count, \<^verbatim>\<open>totalSize\<close> and \<^verbatim>\<open>toLongLong\<close> for the byte counts) make them signed
  integers of 32 and of 64 bits. They are unbounded integers here, and the places where
  the width decides the result (\<^verbatim>\<open>toInt\<close>, \<^verbatim>\<open>toLongLong\<close>, the cast in
  \<^verbatim>\<open>updateProgress\<close>) write the bound out.
\<close>

record transfer =
  sendBundle :: "item_bundle option"
  protocolState :: protocol_state
  direction :: transfer_direction
  state :: transfer_state
  progress :: int
  itemIndex :: int
  itemCount :: int
  bytesTransferred :: int
  bytesTotal :: int
  currentItem :: item_ref
  currentItemBytesTransferred :: int
  currentItemBytesTotal :: int
  deviceName :: string
  error :: string
  trace :: "action list"

text \<open>
  What the transfer gets from the application and from Qt: the device name, the JSON
  parser (\<^verbatim>\<open>QJsonDocument::fromJson(...).object()\<close>, with \<open>Inl\<close> the
  \<^verbatim>\<open>errorString()\<close> of a parse error), the JSON printer, \<^verbatim>\<open>JsonUtil::objectToJson\<close>, and
  the handler registry: \<^verbatim>\<open>find(type)\<close> returns a handler or null, and a handler creates
  an item from the type and the properties.
\<close>

record env =
  applicationDeviceName :: string
  fromJson :: "string \<Rightarrow> string + json_object"
  toJson :: "json_object \<Rightarrow> string"
  objectToJson :: "item \<Rightarrow> json_object"
  findHandler :: "string \<Rightarrow> (string \<Rightarrow> json_object \<Rightarrow> item) option"

text \<open>The constructor: a transfer with a bundle sends, one without receives.\<close>

definition TransferPrivate :: "item_bundle option \<Rightarrow> transfer" where
  "TransferPrivate b =
     \<lparr> sendBundle = b,
       protocolState = TransferHeader,
       direction = (if b \<noteq> None then Send else Receive),
       state = (if b \<noteq> None then Connecting else InProgress),
       progress = 0,
       itemIndex = 0,
       itemCount = (case b of Some bu \<Rightarrow> rowCount bu | None \<Rightarrow> 0),
       bytesTransferred = 0,
       bytesTotal = (case b of Some bu \<Rightarrow> totalSize bu | None \<Rightarrow> 0),
       currentItem = Null,
       currentItemBytesTransferred = 0,
       currentItemBytesTotal = 0,
       deviceName = [],
       error = [],
       trace = [] \<rparr>"

definition emit :: "action \<Rightarrow> transfer \<Rightarrow> transfer" where
  "emit a s = s\<lparr>trace := trace s @ [a]\<rparr>"

definition sendPacket :: "packet \<Rightarrow> transfer \<Rightarrow> transfer" where
  "sendPacket p s = emit (SendPacket p) s"

text \<open>
  Modelled from the spec: the default value of the parameter \<^verbatim>\<open>send\<close> of
  \<^verbatim>\<open>setSuccess\<close> and \<^verbatim>\<open>setError\<close>, declared in transfer_p.h (not among the sources).
  The calls that leave it out are the sender's \<^verbatim>\<open>setSuccess()\<close> on the peer's Success
  packet and \<^verbatim>\<open>setError(packet->content())\<close> on the peer's Error packet; the spec has
  both send nothing.
\<close>

definition default_send :: bool where
  "default_send = False"

definition setSuccess :: "bool \<Rightarrow> transfer \<Rightarrow> transfer" where
  "setSuccess send s =
     (let s1 = (if send then sendPacket \<lparr>ptype = Success, content = []\<rparr> s else s);
          s2 = emit (StateChanged Succeeded) (s1\<lparr>state := Succeeded\<rparr>)
      in emit CloseTransport s2)"

definition setError :: "string \<Rightarrow> bool \<Rightarrow> transfer \<Rightarrow> transfer" where
  "setError message send s =
     (let s0 = emit (LogError message) s;
          s1 = (if send then sendPacket \<lparr>ptype = Error, content = message\<rparr> s0 else s0);
          s2 = emit (ErrorChanged message) (s1\<lparr>error := message\<rparr>);
          s3 = emit (StateChanged Failed) (s2\<lparr>state := Failed\<rparr>);
          s4 = emit CloseTransport s3
      in s4\<lparr>protocolState := Finished\<rparr>)"

definition updateProgress :: "transfer \<Rightarrow> fault + transfer" where
  "updateProgress s =
     (case (if bytesTotal s \<noteq> 0 then percent (bytesTransferred s) (bytesTotal s) else Inr 0) of
        Inl f \<Rightarrow> Inl f
      | Inr newProgress \<Rightarrow>
          Inr (if newProgress \<noteq> progress s
               then emit (ProgressChanged newProgress) (s\<lparr>progress := newProgress\<rparr>)
               else s))"

subsection \<open>The sender\<close>

definition sendTransferHeader :: "env \<Rightarrow> transfer \<Rightarrow> fault + transfer" where
  "sendTransferHeader e s =
     (case sendBundle s of
        None \<Rightarrow> Inl NullDeref
      | Some b \<Rightarrow>
          let object = [''name'' \<mapsto> JString (applicationDeviceName e),
                        ''count'' \<mapsto> JString (number (rowCount b)),
                        ''size'' \<mapsto> JString (number (totalSize b))];
              s1 = sendPacket \<lparr>ptype = Json, content = toJson e object\<rparr> s
          in Inr (s1\<lparr>protocolState := ItemHeader\<rparr>))"

definition sendNext :: "transfer \<Rightarrow> fault + transfer" where
  "sendNext s =
     (case currentItem s of
        Null \<Rightarrow> Inl NullDeref
      | Dangling \<Rightarrow> Inl UseAfterDelete
      | Item it \<Rightarrow>
          let s1 = emit (ItemClose (item_name it)) (s\<lparr>currentItem := Item (item_close it)\<rparr>);
              s2 = s1\<lparr>itemIndex := itemIndex s1 + 1\<rparr>
          in Inr (if itemIndex s2 = itemCount s2
                  then s2\<lparr>protocolState := Finished\<rparr>
                  else s2\<lparr>protocolState := ItemHeader\<rparr>))"

definition sendItemHeader :: "env \<Rightarrow> transfer \<Rightarrow> fault + transfer" where
  \<open>sendItemHeader e s =
     (case sendBundle s of
        None \<Rightarrow> Inl NullDeref
      | Some b \<Rightarrow>
          (case item_at b (itemIndex s) of
             None \<Rightarrow> Inl NullDeref
           | Some it \<Rightarrow>
               let (ok, it1) = item_open it;
                   s1 = emit (ItemOpen (item_name it)) (s\<lparr>currentItem := Item it1\<rparr>)
               in if \<not> ok
                  then Inr (setError (''unable to open "'' @ item_name it1 @ ''" for reading'') True s1)
                  else
                    let s2 = s1\<lparr>currentItemBytesTransferred := 0,
                                 currentItemBytesTotal := item_size it1\<rparr>;
                        object = objectToJson e it1;
                        s3 = sendPacket \<lparr>ptype = Json, content = toJson e object\<rparr> s2
                    in if currentItemBytesTotal s3 \<noteq> 0
                       then Inr (s3\<lparr>protocolState := ItemContent\<rparr>)
                       else sendNext s3))\<close>

definition sendItemContent :: "transfer \<Rightarrow> fault + transfer" where
  "sendItemContent s =
     (case currentItem s of
        Null \<Rightarrow> Inl NullDeref
      | Dangling \<Rightarrow> Inl UseAfterDelete
      | Item it \<Rightarrow>
          let (data, it1) = item_read it;
              s1 = emit (ItemRead (item_name it)) (s\<lparr>currentItem := Item it1\<rparr>);
              s2 = sendPacket \<lparr>ptype = Binary, content = data\<rparr> s1;
              s3 = s2\<lparr>bytesTransferred := bytesTransferred s2 + int (length data),
                       currentItemBytesTransferred :=
                         currentItemBytesTransferred s2 + int (length data)\<rparr>
          in (case updateProgress s3 of
                Inl f \<Rightarrow> Inl f
              | Inr s4 \<Rightarrow>
                  if currentItemBytesTransferred s4 \<ge> currentItemBytesTotal s4
                  then sendNext s4
                  else Inr s4))"

subsection \<open>The receiver\<close>

definition processTransferHeader :: "env \<Rightarrow> packet \<Rightarrow> transfer \<Rightarrow> transfer" where
  "processTransferHeader e p s =
     (case fromJson e (content p) of
        Inl err \<Rightarrow> setError (''transfer header: '' @ err) True s
      | Inr object \<Rightarrow>
          let s1 = s\<lparr>deviceName := toString (jvalue object ''name'')\<rparr>;
              s2 = (if deviceName s1 \<noteq> [] then emit (DeviceNameChanged (deviceName s1)) s1 else s1);
              s3 = s2\<lparr>itemCount := toInt (toString (jvalue object ''count'')),
                       bytesTotal := toLongLong (toString (jvalue object ''size''))\<rparr>
          in s3\<lparr>protocolState := ItemHeader\<rparr>)"

definition processNext :: "transfer \<Rightarrow> fault + transfer" where
  "processNext s =
     (case currentItem s of
        Null \<Rightarrow> Inl NullDeref
      | Dangling \<Rightarrow> Inl UseAfterDelete
      | Item it \<Rightarrow>
          let s1 = emit (ItemClose (item_name it)) (s\<lparr>currentItem := Item (item_close it)\<rparr>);
              s2 = emit (ItemDelete (item_name it)) (s1\<lparr>currentItem := Dangling\<rparr>);
              s3 = s2\<lparr>itemIndex := itemIndex s2 + 1\<rparr>
          in Inr (if itemIndex s3 = itemCount s3
                  then setSuccess True s3
                  else s3\<lparr>protocolState := ItemHeader\<rparr>))"

definition processItemHeader :: "env \<Rightarrow> packet \<Rightarrow> transfer \<Rightarrow> fault + transfer" where
  \<open>processItemHeader e p s =
     (case fromJson e (content p) of
        Inl err \<Rightarrow> Inr (setError (''item header: '' @ err) True s)
      | Inr object \<Rightarrow>
          let type = (if contains object ''type''
                      then toString (jvalue object ''type'')
                      else if contains object ''directory'' then ''directory'' else ''file'');
              s0 = emit (FindHandler type) s
          in (case findHandler e type of
                None \<Rightarrow> Inr (setError (''unrecognized item type "'' @ type @ ''"'') True s0)
              | Some createItem \<Rightarrow>
                  let (ok, it1) = item_open (createItem type object);
                      s1 = emit (ItemOpen (item_name it1)) (s0\<lparr>currentItem := Item it1\<rparr>)
                  in if \<not> ok
                     then Inr (setError (''unable to open "'' @ item_name it1 @ ''" for writing'') True s1)
                     else
                       let s2 = s1\<lparr>currentItemBytesTransferred := 0,
                                    currentItemBytesTotal := item_size it1\<rparr>
                       in if currentItemBytesTotal s2 \<noteq> 0
                          then Inr (s2\<lparr>protocolState := ItemContent\<rparr>)
                          else processNext s2))\<close>

definition processItemContent :: "packet \<Rightarrow> transfer \<Rightarrow> fault + transfer" where
  "processItemContent p s =
     (case currentItem s of
        Null \<Rightarrow> Inl NullDeref
      | Dangling \<Rightarrow> Inl UseAfterDelete
      | Item it \<Rightarrow>
          let s1 = emit (ItemWrite (item_name it) (content p)) s;
              s2 = s1\<lparr>bytesTransferred := bytesTransferred s1 + int (length (content p)),
                       currentItemBytesTransferred :=
                         currentItemBytesTransferred s1 + int (length (content p))\<rparr>
          in (case updateProgress s2 of
                Inl f \<Rightarrow> Inl f
              | Inr s3 \<Rightarrow>
                  if currentItemBytesTransferred s3 \<ge> currentItemBytesTotal s3
                  then processNext s3
                  else Inr s3))"

subsection \<open>The slots and the public interface\<close>

definition onPacketReceived :: "env \<Rightarrow> packet \<Rightarrow> transfer \<Rightarrow> fault + transfer" where
  "onPacketReceived e p s =
     (if ptype p = Error then Inr (setError (content p) default_send s)
      else if direction s = Send then
        (if protocolState s = Finished \<and> ptype p = Success
         then Inr (setSuccess default_send s)
         else Inr (setError ''protocol error - unexpected packet'' True s))
      else
        (case protocolState s of
           TransferHeader \<Rightarrow> Inr (processTransferHeader e p s)
         | ItemHeader \<Rightarrow> processItemHeader e p s
         | ItemContent \<Rightarrow> processItemContent p s
         | Finished \<Rightarrow> Inr s))"

definition onPacketSent :: "env \<Rightarrow> transfer \<Rightarrow> fault + transfer" where
  "onPacketSent e s =
     (if direction s = Receive then Inr s
      else
        (case protocolState s of
           TransferHeader \<Rightarrow> sendTransferHeader e s
         | ItemHeader \<Rightarrow> sendItemHeader e s
         | ItemContent \<Rightarrow> sendItemContent s
         | Finished \<Rightarrow> Inr s))"

definition onError :: "string \<Rightarrow> transfer \<Rightarrow> transfer" where
  "onError message s = setError message True s"

text \<open>The slot the constructor connects to \<^verbatim>\<open>Transport::connected\<close> when sending.\<close>

definition onConnected :: "env \<Rightarrow> transfer \<Rightarrow> fault + transfer" where
  "onConnected e s = onPacketSent e (emit (StateChanged InProgress) (s\<lparr>state := InProgress\<rparr>))"

definition cancel :: "transfer \<Rightarrow> transfer" where
  "cancel s = setError ''transfer cancelled'' True s"

definition isFinished :: "transfer \<Rightarrow> bool" where
  "isFinished s = (state s = Failed \<or> state s = Succeeded)"

subsection \<open>Executions\<close>

text \<open>
  The events a transfer reacts to: the three signals of the transport it is connected
  to, the transport's \<^verbatim>\<open>connected\<close> signal (connected only when sending), and a call of
  \<^verbatim>\<open>cancel()\<close>. Each handler runs to completion before the next event.
\<close>

datatype event =
    Connected
  | PacketReceived packet
  | PacketSent
  | TransportError string
  | Cancel

fun step :: "env \<Rightarrow> event \<Rightarrow> transfer \<Rightarrow> fault + transfer" where
  "step e Connected s = (if direction s = Send then onConnected e s else Inr s)"
| "step e (PacketReceived p) s = onPacketReceived e p s"
| "step e PacketSent s = onPacketSent e s"
| "step e (TransportError m) s = Inr (onError m s)"
| "step e Cancel s = Inr (cancel s)"

fun run :: "env \<Rightarrow> event list \<Rightarrow> transfer \<Rightarrow> fault + transfer" where
  "run e [] s = Inr s"
| "run e (ev # evs) s = (case step e ev s of Inl f \<Rightarrow> Inl f | Inr s1 \<Rightarrow> run e evs s1)"

subsection \<open>Notions used to state the properties\<close>

text \<open>What a handler added to the trace: the trace after it, without the trace before it.\<close>

definition new_actions :: "transfer \<Rightarrow> transfer \<Rightarrow> action list" where
  "new_actions s s' = drop (length (trace s)) (trace s')"

text \<open>
  A small concrete environment for running the handlers on examples: a parser that
  knows a handful of headers and rejects everything else, and a registry with a handler
  for files and directories whose items take name and size from the header.
\<close>

definition demo_parse :: "string \<Rightarrow> string + json_object" where
  \<open>demo_parse bytes =
     (if bytes = ''{"name":"beta","count":"1","size":"5"}''
      then Inr [''name'' \<mapsto> JString ''beta'', ''count'' \<mapsto> JString ''1'', ''size'' \<mapsto> JString ''5'']
      else if bytes = ''{"name":"beta","count":"0","size":"0"}''
      then Inr [''name'' \<mapsto> JString ''beta'', ''count'' \<mapsto> JString ''0'', ''size'' \<mapsto> JString ''0'']
      else if bytes = ''{"name":"beta","count":"2147483648","size":"9223372036854775807"}''
      then Inr [''name'' \<mapsto> JString ''beta'', ''count'' \<mapsto> JString ''2147483648'',
                ''size'' \<mapsto> JString ''9223372036854775807'']
      else if bytes = ''{"name":"beta","count":"1"}''
      then Inr [''name'' \<mapsto> JString ''beta'', ''count'' \<mapsto> JString ''1'']
      else if bytes = ''{"name":"a.txt","size":"5"}''
      then Inr [''name'' \<mapsto> JString ''a.txt'', ''size'' \<mapsto> JString ''5'']
      else if bytes = ''{"name":"d","directory":true}''
      then Inr [''name'' \<mapsto> JString ''d'', ''directory'' \<mapsto> JBool True]
      else Inl ''illegal value'')\<close>

definition demo_handler :: "string \<Rightarrow> json_object \<Rightarrow> item" where
  "demo_handler type properties =
     \<lparr> item_name = toString (jvalue properties ''name''),
       item_size = toLongLong (toString (jvalue properties ''size'')),
       can_open = True,
       chunks = [],
       is_open = False \<rparr>"

definition demo_env :: env where
  "demo_env =
     \<lparr> applicationDeviceName = ''alpha'',
       fromJson = demo_parse,
       toJson = (\<lambda>object. ''{}''),
       objectToJson = (\<lambda>it. [''name'' \<mapsto> JString (item_name it)]),
       findHandler =
         (\<lambda>type. if type = ''file'' \<or> type = ''directory'' then Some demo_handler else None) \<rparr>"


text \<open>
  The type of an incoming item, in the words of the specification: the \<^verbatim>\<open>type\<close> field when
  the header has one, else \<^verbatim>\<open>directory\<close> when it has a \<^verbatim>\<open>directory\<close> field, else
  \<^verbatim>\<open>file\<close>. It is compared below with what \<^verbatim>\<open>processItemHeader\<close> computes.
\<close>

definition legacy_item_type :: "json_object \<Rightarrow> string" where
  "legacy_item_type object =
     (case object ''type'' of
        Some v \<Rightarrow> toString v
      | None \<Rightarrow> (case object ''directory'' of Some v \<Rightarrow> ''directory'' | None \<Rightarrow> ''file''))"

text \<open>
  A transfer without a total: no bytes are expected, no progress has been reported, and
  the total is final (a receiver sets it when it processes the transfer header, a sender
  never changes it).
\<close>

definition zero_total :: "transfer \<Rightarrow> bool" where
  "zero_total s =
     (bytesTotal s = 0 \<and> progress s = 0 \<and>
      (direction s = Send \<or> protocolState s \<noteq> TransferHeader))"

text \<open>
  After a failure the protocol is finished, and so it is on a sender that has succeeded
  (a receiver that succeeds stays in the protocol state of its last item).
\<close>

definition terminal_is_finished :: "transfer \<Rightarrow> bool" where
  "terminal_is_finished s =
     ((state s = Failed \<longrightarrow> protocolState s = Finished) \<and>
      (direction s = Send \<and> state s = Succeeded \<longrightarrow> protocolState s = Finished))"

text \<open>
  In a trace, the transport is closed at the terminal transitions and only there: each
  \<open>StateChanged Succeeded\<close> and each \<open>StateChanged Failed\<close> is followed at once by
  \<open>CloseTransport\<close>, and there is no other \<open>CloseTransport\<close>.
\<close>

fun closes_at_terminal :: "action list \<Rightarrow> bool" where
  "closes_at_terminal [] = True"
| "closes_at_terminal (StateChanged st # rest) =
     (if st = Succeeded \<or> st = Failed
      then (case rest of CloseTransport # rest' \<Rightarrow> closes_at_terminal rest' | _ \<Rightarrow> False)
      else closes_at_terminal rest)"
| "closes_at_terminal (CloseTransport # rest) = False"
| "closes_at_terminal (a # rest) = closes_at_terminal rest"

definition closes :: "action list \<Rightarrow> nat" where
  "closes xs = length (filter (\<lambda>a. a = CloseTransport) xs)"

definition terminal_changes :: "action list \<Rightarrow> nat" where
  "terminal_changes xs =
     length (filter (\<lambda>a. a = StateChanged Succeeded \<or> a = StateChanged Failed) xs)"






text \<open>
  The progress values a trace announces (its \<open>ProgressChanged\<close> actions), the value
  announced last (0 before the first), the percentage of the specification, the steps
  that account bytes (the sender sends a chunk, the receiver takes one), and the range
  in which the double arithmetic of \<^verbatim>\<open>updateProgress\<close> is exact.
\<close>

fun progress_values :: "action list \<Rightarrow> int list" where
  "progress_values [] = []"
| "progress_values (ProgressChanged n # xs) = n # progress_values xs"
| "progress_values (a # xs) = progress_values xs"

definition last_emitted :: "action list \<Rightarrow> int" where
  "last_emitted xs = last (0 # progress_values xs)"

definition floor_percent :: "transfer \<Rightarrow> int" where
  "floor_percent s =
     (if 0 < bytesTotal s then (100 * bytesTransferred s) div bytesTotal s else 0)"

fun accounts_bytes :: "event \<Rightarrow> transfer \<Rightarrow> bool" where
  "accounts_bytes PacketSent s = (direction s = Send \<and> protocolState s = ItemContent)"
| "accounts_bytes Connected s = (direction s = Send \<and> protocolState s = ItemContent)"
| "accounts_bytes (PacketReceived p) s =
     (direction s = Receive \<and> protocolState s = ItemContent \<and> ptype p \<noteq> Error)"
| "accounts_bytes (TransportError m) s = False"
| "accounts_bytes Cancel s = False"

definition progress_tracked :: "transfer \<Rightarrow> bool" where
  "progress_tracked s = (0 \<le> bytesTransferred s \<and> progress s = last_emitted (trace s))"

definition in_double_range :: "transfer \<Rightarrow> bool" where
  "in_double_range s =
     (0 \<le> bytesTotal s \<and> bytesTotal s < 2 ^ 53 \<and> 100 * bytesTransferred s < 2 ^ 53 \<and>
      (100 * bytesTransferred s) div bytesTotal s < 2 ^ 31)"

definition progress_updated :: "transfer \<Rightarrow> action list \<Rightarrow> transfer \<Rightarrow> bool" where
  "progress_updated s xs s' =
     (progress s' = floor_percent s' \<and>
      progress_values xs = (if progress s' \<noteq> progress s then [progress s'] else []))"

definition quiet :: "transfer \<Rightarrow> transfer \<Rightarrow> bool" where
  "quiet s s' =
     (bytesTransferred s' = bytesTransferred s \<and> progress s' = progress s \<and>
      (\<exists>xs. trace s' = trace s @ xs \<and> progress_values xs = []))"

definition progress_step :: "event \<Rightarrow> transfer \<Rightarrow> action list \<Rightarrow> transfer \<Rightarrow> bool" where
  "progress_step ev s xs s' =
     (progress_values xs = (if progress s' \<noteq> progress s then [progress s'] else [])
      \<and> bytesTransferred s \<le> bytesTransferred s'
      \<and> (\<not> accounts_bytes ev s \<longrightarrow>
            bytesTransferred s' = bytesTransferred s \<and> progress s' = progress s))"

section \<open>Properties\<close>

subsection \<open>The trace of the two terminal transitions\<close>

lemma trace_emit [simp]: "trace (emit a s) = trace s @ [a]"
  by (simp add: emit_def)

lemma trace_setError:
  "trace (setError m send s) =
     trace s @ LogError m # (if send then [SendPacket \<lparr>ptype = Error, content = m\<rparr>] else [])
       @ [ErrorChanged m, StateChanged Failed, CloseTransport]"
  by (simp add: setError_def sendPacket_def emit_def Let_def)

lemma error_setError [simp]: "error (setError m send s) = m"
  by (simp add: setError_def sendPacket_def emit_def Let_def)

lemma trace_setSuccess:
  "trace (setSuccess send s) =
     trace s @ (if send then [SendPacket \<lparr>ptype = Success, content = []\<rparr>] else [])
       @ [StateChanged Succeeded, CloseTransport]"
  by (simp add: setSuccess_def sendPacket_def emit_def Let_def)

lemma new_actions_append [simp]: "trace s' = trace s @ xs \<Longrightarrow> new_actions s s' = xs"
  by (simp add: new_actions_def)

lemmas handler_defs =
  sendTransferHeader_def sendNext_def sendItemHeader_def sendItemContent_def
  processTransferHeader_def processNext_def processItemHeader_def processItemContent_def
  updateProgress_def sendPacket_def item_open_def item_read_def

lemmas double_defs =
  to_double_def binade_def round_even_def trunc_to_int_def percent_def Let_def

lemmas handler_splits =
  sum.splits option.splits if_splits item_ref.splits prod.splits list.splits
  protocol_state.splits

subsection \<open>Which errors are reported to the peer\<close>

lemma onPacketSent_announces:
  "onPacketSent e s = Inr s' \<Longrightarrow>
     \<exists>xs. trace s' = trace s @ xs \<and>
       (StateChanged Failed \<in> set xs \<longrightarrow>
          SendPacket \<lparr>ptype = Error, content = error s'\<rparr> \<in> set xs)"
  by (auto simp: onPacketSent_def handler_defs Let_def trace_setError trace_setSuccess
      split: handler_splits)

lemma onPacketReceived_announces:
  "onPacketReceived e p s = Inr s' \<Longrightarrow> ptype p \<noteq> Error \<Longrightarrow>
     \<exists>xs. trace s' = trace s @ xs \<and>
       (StateChanged Failed \<in> set xs \<longrightarrow>
          SendPacket \<lparr>ptype = Error, content = error s'\<rparr> \<in> set xs)"
  by (auto simp: onPacketReceived_def handler_defs Let_def trace_setError trace_setSuccess
      split: handler_splits)

text \<open>
  C1, as the code has it. A step that fails the transfer (it emits
  \<open>StateChanged Failed\<close>) also sends an Error packet with the error message to the peer,
  whatever the event was: a packet that cannot be parsed or was not expected, an item
  that cannot be opened, \<^verbatim>\<open>cancel()\<close>, and a transport error too. The one exception is
  a peer-reported error, an inbound Error packet: then no packet at all is sent.
\<close>

theorem error_packet_unless_peer_reported:
  assumes "step e ev s = Inr s'" and "StateChanged Failed \<in> set (new_actions s s')"
  shows "if (\<exists>p. ev = PacketReceived p \<and> ptype p = Error)
         then (\<forall>p. SendPacket p \<notin> set (new_actions s s'))
         else SendPacket \<lparr>ptype = Error, content = error s'\<rparr> \<in> set (new_actions s s')"
proof (cases ev)
  case Connected
  show ?thesis
  proof (cases "direction s = Send")
    case True
    with Connected assms(1)
    have "onPacketSent e (emit (StateChanged InProgress) (s\<lparr>state := InProgress\<rparr>)) = Inr s'"
      by (simp add: onConnected_def)
    from onPacketSent_announces [OF this] obtain xs where
      "trace s' = trace s @ StateChanged InProgress # xs"
      "StateChanged Failed \<in> set xs \<longrightarrow>
         SendPacket \<lparr>ptype = Error, content = error s'\<rparr> \<in> set xs"
      by auto
    with assms(2) Connected show ?thesis by auto
  next
    case False
    with Connected assms show ?thesis by (simp add: new_actions_def)
  qed
next
  case (PacketReceived p)
  show ?thesis
  proof (cases "ptype p = Error")
    case True
    with PacketReceived assms(1) have "s' = setError (content p) False s"
      by (simp add: onPacketReceived_def default_send_def)
    then have "new_actions s s' =
        [LogError (content p), ErrorChanged (content p), StateChanged Failed, CloseTransport]"
      by (simp add: trace_setError)
    with PacketReceived True show ?thesis by auto
  next
    case False
    with PacketReceived assms(1) onPacketReceived_announces [of e p s s'] obtain xs where
      "trace s' = trace s @ xs"
      "StateChanged Failed \<in> set xs \<longrightarrow>
         SendPacket \<lparr>ptype = Error, content = error s'\<rparr> \<in> set xs"
      by auto
    with assms(2) PacketReceived False show ?thesis by auto
  qed
next
  case PacketSent
  with assms(1) onPacketSent_announces [of e s s'] obtain xs where
    "trace s' = trace s @ xs"
    "StateChanged Failed \<in> set xs \<longrightarrow>
       SendPacket \<lparr>ptype = Error, content = error s'\<rparr> \<in> set xs"
    by auto
  with assms(2) PacketSent show ?thesis by auto
next
  case (TransportError m)
  with assms(1) have "s' = setError m True s" by (simp add: onError_def)
  then have "new_actions s s' =
      [LogError m, SendPacket \<lparr>ptype = Error, content = m\<rparr>, ErrorChanged m,
       StateChanged Failed, CloseTransport]" "error s' = m"
    by (simp_all add: trace_setError)
  with TransportError show ?thesis by auto
next
  case Cancel
  with assms(1) have "s' = setError ''transfer cancelled'' True s" by (simp add: cancel_def)
  then have "new_actions s s' =
      [LogError ''transfer cancelled'',
       SendPacket \<lparr>ptype = Error, content = ''transfer cancelled''\<rparr>,
       ErrorChanged ''transfer cancelled'', StateChanged Failed, CloseTransport]"
    "error s' = ''transfer cancelled''"
    by (simp_all add: trace_setError)
  with Cancel show ?thesis by auto
qed

text \<open>
  The theorem at a concrete input: a receiver is handed a packet that is not JSON. It
  fails with a parse error and tells the peer.
\<close>

theorem error_packet_unless_peer_reported_witness:
  "step demo_env (PacketReceived \<lparr>ptype = Json, content = ''garbage''\<rparr>) (TransferPrivate None)
     = Inr (setError ''transfer header: illegal value'' True (TransferPrivate None))
   \<and> StateChanged Failed \<in> set (new_actions (TransferPrivate None)
        (setError ''transfer header: illegal value'' True (TransferPrivate None)))
   \<and> SendPacket \<lparr>ptype = Error, content = ''transfer header: illegal value''\<rparr>
       \<in> set (new_actions (TransferPrivate None)
            (setError ''transfer header: illegal value'' True (TransferPrivate None)))"
proof -
  let ?s = "TransferPrivate None"
  let ?s' = "setError ''transfer header: illegal value'' True ?s"
  have h1: "step demo_env (PacketReceived \<lparr>ptype = Json, content = ''garbage''\<rparr>) ?s = Inr ?s'"
    by (simp add: onPacketReceived_def TransferPrivate_def processTransferHeader_def
        demo_env_def demo_parse_def)
  have h2: "StateChanged Failed \<in> set (new_actions ?s ?s')"
    by (simp add: trace_setError)
  from error_packet_unless_peer_reported [OF h1 h2] h1 h2 show ?thesis
    by simp
qed

text \<open>
  C1 as the specification states it fails for transport errors: \<^verbatim>\<open>onError\<close> calls
  \<^verbatim>\<open>setError(message, true)\<close>, so the Error packet is sent.
\<close>

theorem transport_error_sends_error_packet:
  "SendPacket \<lparr>ptype = Error, content = ''connection reset''\<rparr>
     \<in> set (trace (onError ''connection reset'' (TransferPrivate None)))"
  by (simp add: onError_def trace_setError)

subsection \<open>Fields after the basic operations\<close>

lemma setError_fields [simp]:
  "bytesTotal (setError m b s) = bytesTotal s"
  "progress (setError m b s) = progress s"
  "direction (setError m b s) = direction s"
  "protocolState (setError m b s) = Finished"
  "state (setError m b s) = Failed"
  "currentItem (setError m b s) = currentItem s"
  by (simp_all add: setError_def sendPacket_def emit_def Let_def)

lemma setSuccess_fields [simp]:
  "bytesTotal (setSuccess b s) = bytesTotal s"
  "progress (setSuccess b s) = progress s"
  "direction (setSuccess b s) = direction s"
  "protocolState (setSuccess b s) = protocolState s"
  "state (setSuccess b s) = Succeeded"
  "currentItem (setSuccess b s) = currentItem s"
  by (simp_all add: setSuccess_def sendPacket_def emit_def Let_def)

lemma emit_fields [simp]:
  "bytesTotal (emit a s) = bytesTotal s"
  "progress (emit a s) = progress s"
  "direction (emit a s) = direction s"
  "protocolState (emit a s) = protocolState s"
  "state (emit a s) = state s"
  "currentItem (emit a s) = currentItem s"
  by (simp_all add: emit_def)

lemma itemIndex_fields [simp]:
  "itemIndex (setError m b s) = itemIndex s"
  "itemIndex (setSuccess b s) = itemIndex s"
  "itemIndex (emit a s) = itemIndex s"
  by (simp_all add: setError_def setSuccess_def sendPacket_def emit_def Let_def)

lemma progress_fields [simp]:
  "bytesTransferred (setError m b s) = bytesTransferred s"
  "bytesTransferred (setSuccess b s) = bytesTransferred s"
  "bytesTransferred (emit a s) = bytesTransferred s"
  by (simp_all add: setError_def setSuccess_def sendPacket_def emit_def Let_def)

lemma updateProgress_frame:
  "updateProgress t = Inr t' \<Longrightarrow>
     currentItem t' = currentItem t \<and> protocolState t' = protocolState t \<and>
     state t' = state t \<and> direction t' = direction t \<and> itemIndex t' = itemIndex t \<and>
     itemCount t' = itemCount t \<and> bytesTransferred t' = bytesTransferred t \<and>
     bytesTotal t' = bytesTotal t \<and>
     currentItemBytesTransferred t' = currentItemBytesTransferred t \<and>
     currentItemBytesTotal t' = currentItemBytesTotal t"
  by (auto simp: updateProgress_def emit_def split: sum.splits if_splits)

subsection \<open>Printing and parsing decimal numbers\<close>

lemmas parse_defs =
  toLongLong_def toInt_def parse_integer_def trimmed_def is_space_def digit_of_def

lemma decimal_small: "n < 10 \<Longrightarrow> decimal n = [digit_char n]"
  by (subst decimal.simps) simp

lemma decimal_large: "10 \<le> n \<Longrightarrow> decimal n = decimal (n div 10) @ [digit_char (n mod 10)]"
  by (subst decimal.simps) simp

lemma digit_cases:
  "d < 10 \<Longrightarrow>
     d = 0 \<or> d = 1 \<or> d = 2 \<or> d = 3 \<or> d = 4 \<or> d = 5 \<or> d = 6 \<or> d = 7 \<or> d = 8 \<or> d = (9::nat)"
  by arith

lemma digit_of_digit_char: "d < 10 \<Longrightarrow> digit_of (digit_char d) = Some d"
  by (drule digit_cases, elim disjE) (simp_all add: digit_of_def digit_char_def)

lemma digit_char_plain:
  "d < 10 \<Longrightarrow>
     \<not> is_space (digit_char d) \<and> digit_char d \<noteq> CHR ''-'' \<and> digit_char d \<noteq> CHR ''+''"
  by (drule digit_cases, elim disjE) (simp_all add: is_space_def digit_char_def)

lemma parse_digits_append:
  "parse_digits acc (xs @ ys) =
     (case parse_digits acc xs of None \<Rightarrow> None | Some a \<Rightarrow> parse_digits a ys)"
  by (induction xs arbitrary: acc) (auto split: option.splits)

lemma parse_digits_decimal: "parse_digits 0 (decimal n) = Some n"
proof (induction n rule: decimal.induct)
  case (1 n)
  show ?case
  proof (cases "n < 10")
    case True
    then show ?thesis by (simp add: decimal_small digit_of_digit_char)
  next
    case False
    with 1 have "parse_digits 0 (decimal (n div 10)) = Some (n div 10)" by simp
    with False show ?thesis
      by (simp add: decimal_large parse_digits_append digit_of_digit_char)
  qed
qed

lemma decimal_digits: "c \<in> set (decimal n) \<Longrightarrow> \<exists>d<10. c = digit_char d"
proof (induction n rule: decimal.induct)
  case (1 n)
  show ?case
  proof (cases "n < 10")
    case True
    with 1 show ?thesis by (auto simp: decimal_small)
  next
    case False
    with 1(2) have "c \<in> set (decimal (n div 10)) \<or> c = digit_char (n mod 10)"
      by (auto simp: decimal_large)
    with 1(1) False show ?thesis
      by (metis mod_less_divisor zero_less_numeral)
  qed
qed

lemma decimal_not_Nil: "decimal n \<noteq> []"
  by (subst decimal.simps) simp

lemma dropWhile_none: "\<forall>c \<in> set xs. \<not> P c \<Longrightarrow> dropWhile P xs = xs"
  by (cases xs) auto

lemma trimmed_no_space: "\<forall>c \<in> set xs. \<not> is_space c \<Longrightarrow> trimmed xs = xs"
  by (simp add: trimmed_def dropWhile_none)

lemma decimal_no_space: "\<forall>c \<in> set (decimal n). \<not> is_space c"
  using decimal_digits digit_char_plain by blast

lemma parse_integer_decimal: "parse_integer (decimal n) = Some (int n)"
proof -
  obtain c cs where cs: "decimal n = c # cs"
    using decimal_not_Nil by (cases "decimal n") auto
  then have "c \<in> set (decimal n)" by simp
  then obtain d where "d < 10" "c = digit_char d"
    using decimal_digits by blast
  then have "c \<noteq> CHR ''-'' \<and> c \<noteq> CHR ''+''"
    using digit_char_plain [of d] by simp
  moreover have "parse_digits 0 (c # cs) = Some n"
    using parse_digits_decimal [of n] cs by simp
  ultimately show ?thesis
    using cs decimal_no_space [of n]
    by (simp add: parse_integer_def trimmed_no_space del: parse_digits.simps)
qed

lemma parse_integer_minus_decimal: "parse_integer (CHR ''-'' # decimal n) = Some (- int n)"
proof -
  have "\<not> is_space CHR ''-''"
    by (simp add: is_space_def)
  with decimal_no_space [of n] have "trimmed (CHR ''-'' # decimal n) = CHR ''-'' # decimal n"
    by (intro trimmed_no_space) simp
  then show ?thesis
    by (simp add: parse_integer_def decimal_not_Nil parse_digits_decimal)
qed

lemma parse_integer_number: "parse_integer (number n) = Some n"
  by (simp add: number_def parse_integer_decimal parse_integer_minus_decimal)

lemma toLongLong_number:
  "toLongLong (number n) = (if - (2 ^ 63) \<le> n \<and> n < 2 ^ 63 then n else 0)"
  by (simp add: toLongLong_def parse_integer_number)

lemma toInt_number:
  "toInt (number n) = (if - (2 ^ 31) \<le> n \<and> n < 2 ^ 31 then n else 0)"
  by (simp add: toInt_def parse_integer_number)

subsection \<open>The numbers of the transfer header\<close>

lemma processTransferHeader_numbers:
  "fromJson e (content p) = Inr object \<Longrightarrow>
     itemCount (processTransferHeader e p s) = toInt (toString (jvalue object ''count'')) \<and>
     bytesTotal (processTransferHeader e p s) = toLongLong (toString (jvalue object ''size''))"
  by (simp add: processTransferHeader_def Let_def emit_def)

text \<open>
  C2, as the code has it. The sender prints \<^verbatim>\<open>count\<close> and \<^verbatim>\<open>size\<close> with
  \<^verbatim>\<open>QString::number\<close>. The receiver reads \<^verbatim>\<open>size\<close> with \<^verbatim>\<open>toLongLong\<close>: every size up
  to \<open>2\<^sup>6\<^sup>3 - 1\<close> arrives in \<^verbatim>\<open>bytesTotal\<close> as it was sent. It reads \<^verbatim>\<open>count\<close> with
  \<^verbatim>\<open>toInt\<close>: a count up to \<open>2\<^sup>3\<^sup>1 - 1\<close> arrives in \<^verbatim>\<open>itemCount\<close> as it was sent, a
  larger one does not fit an \<^verbatim>\<open>int\<close> and \<^verbatim>\<open>itemCount\<close> is 0.
\<close>

theorem transfer_header_count_and_size:
  assumes "fromJson e (content p) = Inr object"
    and "object ''count'' = Some (JString (number c))"
    and "object ''size'' = Some (JString (number z))"
    and "0 \<le> c" and "c < 2 ^ 63" and "0 \<le> z" and "z < 2 ^ 63"
  shows "bytesTotal (processTransferHeader e p s) = z
         \<and> itemCount (processTransferHeader e p s) = (if c < 2 ^ 31 then c else 0)"
  using assms processTransferHeader_numbers [OF assms(1), of s]
  by (simp add: jvalue_def toLongLong_number toInt_number)

text \<open>The theorem at the header of one item of five bytes.\<close>

theorem transfer_header_count_and_size_witness:
  \<open>bytesTotal (processTransferHeader demo_env
       \<lparr>ptype = Json, content = ''{"name":"beta","count":"1","size":"5"}''\<rparr>
       (TransferPrivate None)) = 5
   \<and> itemCount (processTransferHeader demo_env
       \<lparr>ptype = Json, content = ''{"name":"beta","count":"1","size":"5"}''\<rparr>
       (TransferPrivate None)) = 1\<close>
proof -
  let ?p = \<open>\<lparr>ptype = Json, content = ''{"name":"beta","count":"1","size":"5"}''\<rparr>\<close>
  let ?object = "[''name'' \<mapsto> JString ''beta'', ''count'' \<mapsto> JString ''1'',
                  ''size'' \<mapsto> JString ''5'']"
  have h1: "fromJson demo_env (content ?p) = Inr ?object"
    by (simp add: demo_env_def demo_parse_def)
  have h2: "?object ''count'' = Some (JString (number 1))"
    by (simp add: number_def decimal_small digit_char_def)
  have h3: "?object ''size'' = Some (JString (number 5))"
    by (simp add: number_def decimal_small digit_char_def)
  from transfer_header_count_and_size [OF h1 h2 h3, of "TransferPrivate None"]
  show ?thesis by simp
qed

text \<open>
  C2 as the specification states it fails for the count: a header that announces
  \<open>2\<^sup>3\<^sup>1\<close> items (and \<open>2\<^sup>6\<^sup>3 - 1\<close> bytes) leaves \<^verbatim>\<open>itemCount\<close> at 0.
\<close>

theorem transfer_header_count_overflows_int:
  \<open>itemCount (processTransferHeader demo_env
       \<lparr>ptype = Json,
        content = ''{"name":"beta","count":"2147483648","size":"9223372036854775807"}''\<rparr>
       (TransferPrivate None)) = 0
   \<and> bytesTotal (processTransferHeader demo_env
       \<lparr>ptype = Json,
        content = ''{"name":"beta","count":"2147483648","size":"9223372036854775807"}''\<rparr>
       (TransferPrivate None)) = 9223372036854775807\<close>
  by (simp add: processTransferHeader_def demo_env_def demo_parse_def Let_def emit_def
      jvalue_def parse_defs)

subsection \<open>The type of an incoming item\<close>

lemma legacy_item_type_code:
  "(if contains object ''type'' then toString (jvalue object ''type'')
    else if contains object ''directory'' then ''directory'' else ''file'')
   = legacy_item_type object"
  by (simp add: legacy_item_type_def contains_def jvalue_def split: option.splits)

lemma processNext_Item:
  "currentItem s = Item it \<Longrightarrow>
     \<exists>s' xs. processNext s = Inr s' \<and>
       trace s' = trace s @ ItemClose (item_name it) # ItemDelete (item_name it) # xs"
  by (simp add: processNext_def Let_def trace_setSuccess)

text \<open>
  C8. When the item header parses, the first thing \<^verbatim>\<open>processItemHeader\<close> does is to ask
  the registry for the handler of the type the legacy rule gives: the \<^verbatim>\<open>type\<close> field
  when the object has one (its string; the empty string when the field is not a
  string), else \<^verbatim>\<open>directory\<close> when a \<^verbatim>\<open>directory\<close> field is present, else \<^verbatim>\<open>file\<close>.
  Without a handler the transfer fails with that type in the message; with one, the
  handler creates the item from that type and the item is opened.
\<close>

theorem item_header_type_rule:
  assumes "fromJson e (content p) = Inr object"
  shows "\<exists>s' rest. processItemHeader e p s = Inr s'
           \<and> new_actions s s' = FindHandler (legacy_item_type object) # rest
           \<and> (findHandler e (legacy_item_type object) = None \<longrightarrow>
                error s' =
                  ''unrecognized item type '' @ [CHR 0x22] @ legacy_item_type object @ [CHR 0x22])
           \<and> (\<forall>h. findHandler e (legacy_item_type object) = Some h \<longrightarrow>
                 ItemOpen (item_name (h (legacy_item_type object) object)) \<in> set rest)
           \<and> (\<forall>t. object ''type'' = Some (JString t) \<longrightarrow> legacy_item_type object = t)
           \<and> (object ''type'' = None \<and> object ''directory'' \<noteq> None \<longrightarrow>
                 legacy_item_type object = ''directory'')
           \<and> (object ''type'' = None \<and> object ''directory'' = None \<longrightarrow>
                 legacy_item_type object = ''file'')"
proof -
  have rule: "(\<forall>t. object ''type'' = Some (JString t) \<longrightarrow> legacy_item_type object = t)
           \<and> (object ''type'' = None \<and> object ''directory'' \<noteq> None \<longrightarrow>
                 legacy_item_type object = ''directory'')
           \<and> (object ''type'' = None \<and> object ''directory'' = None \<longrightarrow>
                 legacy_item_type object = ''file'')"
    by (auto simp: legacy_item_type_def)
  show ?thesis
  proof (cases "findHandler e (legacy_item_type object)")
    case None
    with assms rule show ?thesis
      by (simp add: processItemHeader_def legacy_item_type_code Let_def trace_setError)
  next
    case (Some h)
    let ?it = "h (legacy_item_type object) object"
    show ?thesis
    proof (cases "can_open ?it")
      case False
      with assms Some rule show ?thesis
        by (simp add: processItemHeader_def legacy_item_type_code Let_def trace_setError
            item_open_def)
    next
      case True
      show ?thesis
      proof (cases "item_size ?it = 0")
        case nz: False
        with assms Some True rule show ?thesis
          by (simp add: processItemHeader_def legacy_item_type_code Let_def item_open_def)
      next
        case z: True
        let ?s2 = "emit (ItemOpen (item_name ?it))
                    (emit (FindHandler (legacy_item_type object)) s
                       \<lparr>currentItem := Item (?it\<lparr>is_open := True\<rparr>)\<rparr>)
                   \<lparr>currentItemBytesTransferred := 0, currentItemBytesTotal := item_size ?it\<rparr>"
        have "currentItem ?s2 = Item (?it\<lparr>is_open := True\<rparr>)"
          by (simp add: emit_def)
        from processNext_Item [OF this] obtain s' xs where
          "processNext ?s2 = Inr s'"
          "trace s' = trace ?s2 @ ItemClose (item_name ?it) # ItemDelete (item_name ?it) # xs"
          by auto
        with assms Some True z rule show ?thesis
          by (simp add: processItemHeader_def legacy_item_type_code Let_def item_open_def)
      qed
    qed
  qed
qed

text \<open>The theorem at a legacy header: no \<^verbatim>\<open>type\<close>, a \<^verbatim>\<open>directory\<close> field.\<close>

theorem item_header_type_rule_witness:
  \<open>\<exists>s' rest.
      processItemHeader demo_env \<lparr>ptype = Json, content = ''{"name":"d","directory":true}''\<rparr>
        (TransferPrivate None) = Inr s'
      \<and> new_actions (TransferPrivate None) s' = FindHandler ''directory'' # rest
      \<and> ItemOpen ''d'' \<in> set rest\<close>
proof -
  let ?p = \<open>\<lparr>ptype = Json, content = ''{"name":"d","directory":true}''\<rparr>\<close>
  let ?object = "[''name'' \<mapsto> JString ''d'', ''directory'' \<mapsto> JBool True]"
  have h1: "fromJson demo_env (content ?p) = Inr ?object"
    by (simp add: demo_env_def demo_parse_def)
  have h2: "legacy_item_type ?object = ''directory''"
    by (simp add: legacy_item_type_def)
  have h3: "findHandler demo_env ''directory'' = Some demo_handler"
    by (simp add: demo_env_def)
  have h4: "item_name (demo_handler ''directory'' ?object) = ''d''"
    by (simp add: demo_handler_def jvalue_def)
  from item_header_type_rule [OF h1, of "TransferPrivate None"] obtain s' rest where
    "processItemHeader demo_env ?p (TransferPrivate None) = Inr s'"
    "new_actions (TransferPrivate None) s' = FindHandler (legacy_item_type ?object) # rest"
    "\<forall>h. findHandler demo_env (legacy_item_type ?object) = Some h \<longrightarrow>
       ItemOpen (item_name (h (legacy_item_type ?object) ?object)) \<in> set rest"
    by blast
  with h2 h3 h4 show ?thesis
    by (metis (no_types, lifting))
qed

subsection \<open>How the receiver dispatches a packet\<close>




subsection \<open>Progress without a total\<close>

lemma step_zero_total:
  assumes "step e ev s = Inr s'" and "zero_total s"
  shows "zero_total s' \<and>
         (\<exists>xs. trace s' = trace s @ xs \<and> (\<forall>n. ProgressChanged n \<notin> set xs))"
proof (cases ev)
  case Connected
  with assms show ?thesis
    by (auto simp: zero_total_def onConnected_def onPacketSent_def handler_defs Let_def
        trace_setError trace_setSuccess split: handler_splits)
next
  case (PacketReceived p)
  with assms show ?thesis
    by (auto simp: zero_total_def onPacketReceived_def handler_defs Let_def
        trace_setError trace_setSuccess split: handler_splits)
next
  case PacketSent
  with assms show ?thesis
    by (auto simp: zero_total_def onPacketSent_def handler_defs Let_def
        trace_setError trace_setSuccess split: handler_splits)
next
  case (TransportError m)
  with assms show ?thesis
    by (auto simp: zero_total_def onError_def trace_setError)
next
  case Cancel
  with assms show ?thesis
    by (auto simp: zero_total_def cancel_def trace_setError)
qed

lemma run_zero_total:
  "run e evs s = Inr s' \<Longrightarrow> zero_total s \<Longrightarrow>
     zero_total s' \<and>
     (\<exists>xs. trace s' = trace s @ xs \<and> (\<forall>n. ProgressChanged n \<notin> set xs))"
proof (induction evs arbitrary: s)
  case Nil
  then show ?case by simp
next
  case (Cons ev evs)
  from Cons.prems(1) obtain s1 where s1: "step e ev s = Inr s1" "run e evs s1 = Inr s'"
    by (auto split: sum.splits)
  from step_zero_total [OF s1(1) Cons.prems(2)] obtain xs where
    a: "zero_total s1" "trace s1 = trace s @ xs" "\<forall>n. ProgressChanged n \<notin> set xs"
    by auto
  from Cons.IH [OF s1(2) a(1)] obtain ys where
    b: "zero_total s'" "trace s' = trace s1 @ ys" "\<forall>n. ProgressChanged n \<notin> set ys"
    by auto
  from a b show ?case by auto
qed

text \<open>
  C10. With \<^verbatim>\<open>bytesTotal = 0\<close> the guard \<^verbatim>\<open>if (bytesTotal)\<close> keeps \<^verbatim>\<open>updateProgress\<close> away
  from the division: it returns, the new progress is 0 whatever \<^verbatim>\<open>bytesTransferred\<close>
  is, and nothing is emitted. Once the total is final (on a sender always, on a receiver
  after the transfer header, whose \<^verbatim>\<open>size\<close> may have been missing or unparsable) this
  stays so for the rest of the transfer: after any sequence of events the total and the
  progress are 0 and no \<^verbatim>\<open>progressChanged\<close> was emitted.
\<close>

theorem progress_stays_zero_without_total:
  assumes "bytesTotal s = 0" and "progress s = 0"
    and "direction s = Send \<or> protocolState s \<noteq> TransferHeader"
  shows "updateProgress s = Inr s
         \<and> (\<forall>n. updateProgress (s\<lparr>bytesTransferred := n\<rparr>) = Inr (s\<lparr>bytesTransferred := n\<rparr>))
         \<and> (\<forall>e evs s'. run e evs s = Inr s' \<longrightarrow>
               bytesTotal s' = 0 \<and> progress s' = 0 \<and>
               (\<forall>n. ProgressChanged n \<notin> set (new_actions s s')))"
proof (intro conjI allI impI)
  show "updateProgress s = Inr s"
    using assms by (simp add: updateProgress_def)
  show "updateProgress (s\<lparr>bytesTransferred := n\<rparr>) = Inr (s\<lparr>bytesTransferred := n\<rparr>)" for n
    using assms by (simp add: updateProgress_def)
next
  fix e evs s' assume r: "run e evs s = Inr s'"
  from assms have "zero_total s" by (simp add: zero_total_def)
  from run_zero_total [OF r this] obtain xs where
    "zero_total s'" "trace s' = trace s @ xs" "\<forall>n. ProgressChanged n \<notin> set xs"
    by auto
  then show "bytesTotal s' = 0" "progress s' = 0"
    "\<And>n. ProgressChanged n \<notin> set (new_actions s s')"
    by (auto simp: zero_total_def)
qed

text \<open>
  The theorem at a receiver whose transfer header had no \<^verbatim>\<open>size\<close>: it then receives an
  item of five bytes and its content, and succeeds with the progress still at 0.
\<close>

theorem progress_stays_zero_without_total_witness:
  \<open>\<exists>s'. run demo_env
          [PacketReceived \<lparr>ptype = Json, content = ''{"name":"a.txt","size":"5"}''\<rparr>,
           PacketReceived \<lparr>ptype = Binary, content = ''hello''\<rparr>]
          (processTransferHeader demo_env
             \<lparr>ptype = Json, content = ''{"name":"beta","count":"1"}''\<rparr> (TransferPrivate None))
        = Inr s'
      \<and> bytesTransferred s' = 5 \<and> state s' = Succeeded \<and> progress s' = 0
      \<and> (\<forall>n. ProgressChanged n \<notin> set (trace s'))\<close>
proof -
  let ?s = \<open>processTransferHeader demo_env
             \<lparr>ptype = Json, content = ''{"name":"beta","count":"1"}''\<rparr> (TransferPrivate None)\<close>
  let ?evs = \<open>[PacketReceived \<lparr>ptype = Json, content = ''{"name":"a.txt","size":"5"}''\<rparr>,
               PacketReceived \<lparr>ptype = Binary, content = ''hello''\<rparr>]\<close>
  have h1: "bytesTotal ?s = 0"
    by (simp add: processTransferHeader_def demo_env_def demo_parse_def Let_def jvalue_def
        parse_defs)
  have h2: "progress ?s = 0"
    by (simp add: processTransferHeader_def demo_env_def demo_parse_def Let_def
        TransferPrivate_def)
  have h3: "direction ?s = Send \<or> protocolState ?s \<noteq> TransferHeader"
    by (simp add: processTransferHeader_def demo_env_def demo_parse_def Let_def)
  have h4: "trace ?s = [DeviceNameChanged ''beta'']"
    by (simp add: processTransferHeader_def demo_env_def demo_parse_def Let_def jvalue_def
        TransferPrivate_def)
  have "\<exists>s'. run demo_env ?evs ?s = Inr s' \<and> bytesTransferred s' = 5 \<and> state s' = Succeeded"
    by (simp add: onPacketReceived_def TransferPrivate_def handler_defs demo_env_def
        demo_parse_def demo_handler_def jvalue_def contains_def Let_def emit_def
        setSuccess_def parse_defs)
  then obtain s' where r: "run demo_env ?evs ?s = Inr s'" "bytesTransferred s' = 5"
    "state s' = Succeeded"
    by blast
  from progress_stays_zero_without_total [OF h1 h2 h3] r(1)
  have z: "progress s' = 0" "\<forall>n. ProgressChanged n \<notin> set (new_actions ?s s')"
    by blast+
  from run_zero_total [OF r(1)] h1 h2 h3 obtain xs where "trace s' = trace ?s @ xs"
    by (auto simp: zero_total_def)
  with z(2) h4 have "\<forall>n. ProgressChanged n \<notin> set (trace s')"
    by simp
  with r z(1) show ?thesis by blast
qed

subsection \<open>Events after a terminal state\<close>

lemma step_terminal_is_finished:
  assumes "step e ev s = Inr s'" and "terminal_is_finished s"
  shows "terminal_is_finished s'"
proof (cases ev)
  case Connected
  with assms show ?thesis
    by (auto simp: terminal_is_finished_def onConnected_def onPacketSent_def handler_defs Let_def
        split: handler_splits)
next
  case (PacketReceived p)
  with assms show ?thesis
    by (auto simp: terminal_is_finished_def onPacketReceived_def handler_defs Let_def
        split: handler_splits)
next
  case PacketSent
  with assms show ?thesis
    by (auto simp: terminal_is_finished_def onPacketSent_def handler_defs Let_def
        split: handler_splits)
next
  case (TransportError m)
  with assms show ?thesis
    by (auto simp: terminal_is_finished_def onError_def)
next
  case Cancel
  with assms show ?thesis
    by (auto simp: terminal_is_finished_def cancel_def)
qed

lemma run_terminal_is_finished:
  "run e evs s = Inr s' \<Longrightarrow> terminal_is_finished s \<Longrightarrow> terminal_is_finished s'"
proof (induction evs arbitrary: s)
  case Nil
  then show ?case by simp
next
  case (Cons ev evs)
  from Cons.prems(1) obtain s1 where "step e ev s = Inr s1" "run e evs s1 = Inr s'"
    by (auto split: sum.splits)
  with Cons.IH Cons.prems(2) step_terminal_is_finished show ?case by blast
qed

lemma init_terminal_is_finished: "terminal_is_finished (TransferPrivate b)"
  by (simp add: terminal_is_finished_def TransferPrivate_def)

text \<open>
  C3, as the code has it. No handler asks whether the transfer is finished. What holds
  is this: on a transfer that has reached Succeeded or Failed, a \<^verbatim>\<open>packetSent\<close> event
  changes nothing, emits nothing and sends nothing, and on a receiver that has failed
  the same holds for every inbound packet but an Error packet. \<^verbatim>\<open>cancel()\<close> is not a
  no-op there: like a transport error it runs \<^verbatim>\<open>setError\<close> again, which logs, sends
  another Error packet, emits \<^verbatim>\<open>errorChanged\<close> and \<^verbatim>\<open>stateChanged(Failed)\<close> and closes
  the transport.
\<close>

theorem terminal_transfer_ignores_packet_events:
  assumes "run e evs (TransferPrivate b) = Inr s" and "isFinished s"
  shows "onPacketSent e s = Inr s
         \<and> (direction s = Receive \<and> state s = Failed \<longrightarrow>
              (\<forall>p. ptype p \<noteq> Error \<longrightarrow> onPacketReceived e p s = Inr s))
         \<and> new_actions s (cancel s) =
             [LogError ''transfer cancelled'',
              SendPacket \<lparr>ptype = Error, content = ''transfer cancelled''\<rparr>,
              ErrorChanged ''transfer cancelled'', StateChanged Failed, CloseTransport]"
proof -
  from run_terminal_is_finished [OF assms(1) init_terminal_is_finished]
  have inv: "terminal_is_finished s" .
  have "onPacketSent e s = Inr s"
  proof (cases "direction s")
    case Send
    with inv assms(2) have "protocolState s = Finished"
      by (auto simp: terminal_is_finished_def isFinished_def)
    with Send show ?thesis by (simp add: onPacketSent_def)
  next
    case Receive
    then show ?thesis by (simp add: onPacketSent_def)
  qed
  moreover have "onPacketReceived e p s = Inr s"
    if "direction s = Receive" "state s = Failed" "ptype p \<noteq> Error" for p
    using that inv by (simp add: onPacketReceived_def terminal_is_finished_def)
  moreover have "new_actions s (cancel s) =
             [LogError ''transfer cancelled'',
              SendPacket \<lparr>ptype = Error, content = ''transfer cancelled''\<rparr>,
              ErrorChanged ''transfer cancelled'', StateChanged Failed, CloseTransport]"
    by (simp add: cancel_def trace_setError)
  ultimately show ?thesis by blast
qed

text \<open>The theorem at a receiver that was cancelled before any packet arrived.\<close>

theorem terminal_transfer_ignores_packet_events_witness:
  "run demo_env [Cancel] (TransferPrivate None) = Inr (cancel (TransferPrivate None))
   \<and> isFinished (cancel (TransferPrivate None))
   \<and> onPacketSent demo_env (cancel (TransferPrivate None)) = Inr (cancel (TransferPrivate None))
   \<and> onPacketReceived demo_env \<lparr>ptype = Binary, content = ''late''\<rparr> (cancel (TransferPrivate None))
       = Inr (cancel (TransferPrivate None))"
proof -
  let ?s = "cancel (TransferPrivate None)"
  have h1: "run demo_env [Cancel] (TransferPrivate None) = Inr ?s"
    by simp
  have h2: "isFinished ?s"
    by (simp add: isFinished_def cancel_def)
  have h3: "direction ?s = Receive \<and> state ?s = Failed"
    by (simp add: cancel_def TransferPrivate_def)
  from terminal_transfer_ignores_packet_events [OF h1 h2] h1 h2 h3 show ?thesis
    by simp
qed

text \<open>
  C3 as the specification states it fails: a second \<^verbatim>\<open>cancel()\<close>, on a transfer that
  has already failed, emits the notifications and sends the Error packet again.
\<close>

theorem cancel_after_failure_emits_again:
  "state (cancel (TransferPrivate None)) = Failed
   \<and> new_actions (cancel (TransferPrivate None)) (cancel (cancel (TransferPrivate None))) =
       [LogError ''transfer cancelled'',
        SendPacket \<lparr>ptype = Error, content = ''transfer cancelled''\<rparr>,
        ErrorChanged ''transfer cancelled'', StateChanged Failed, CloseTransport]"
  by (simp add: cancel_def trace_setError)

subsection \<open>Closing the transport\<close>

lemma closes_at_terminal_append:
  "closes_at_terminal xs \<Longrightarrow> closes_at_terminal ys \<Longrightarrow> closes_at_terminal (xs @ ys)"
  by (induction xs rule: closes_at_terminal.induct) (auto split: list.splits action.splits if_splits)

lemma closes_at_terminal_count:
  "closes_at_terminal xs \<Longrightarrow> closes xs = terminal_changes xs"
  by (induction xs rule: closes_at_terminal.induct)
     (auto simp: closes_def terminal_changes_def split: list.splits action.splits if_splits)

lemma step_closes_at_terminal:
  assumes "step e ev s = Inr s'"
  shows "\<exists>xs. trace s' = trace s @ xs \<and> closes_at_terminal xs"
proof (cases ev)
  case Connected
  with assms show ?thesis
    by (auto simp: onConnected_def onPacketSent_def handler_defs Let_def emit_def
        trace_setError trace_setSuccess split: handler_splits)
next
  case (PacketReceived p)
  with assms show ?thesis
    by (auto simp: onPacketReceived_def handler_defs Let_def
        trace_setError trace_setSuccess split: handler_splits)
next
  case PacketSent
  with assms show ?thesis
    by (auto simp: onPacketSent_def handler_defs Let_def
        trace_setError trace_setSuccess split: handler_splits)
next
  case (TransportError m)
  with assms show ?thesis
    by (auto simp: onError_def trace_setError)
next
  case Cancel
  with assms show ?thesis
    by (auto simp: cancel_def trace_setError)
qed

lemma run_closes_at_terminal:
  "run e evs s = Inr s' \<Longrightarrow> \<exists>xs. trace s' = trace s @ xs \<and> closes_at_terminal xs"
proof (induction evs arbitrary: s)
  case Nil
  then show ?case by simp
next
  case (Cons ev evs)
  from Cons.prems(1) obtain s1 where s1: "step e ev s = Inr s1" "run e evs s1 = Inr s'"
    by (auto split: sum.splits)
  from step_closes_at_terminal [OF s1(1)] obtain xs where
    a: "trace s1 = trace s @ xs" "closes_at_terminal xs" by auto
  from Cons.IH [OF s1(2)] obtain ys where
    b: "trace s' = trace s1 @ ys" "closes_at_terminal ys" by auto
  from a b closes_at_terminal_append have "trace s' = trace s @ (xs @ ys) \<and> closes_at_terminal (xs @ ys)"
    by simp
  then show ?case by blast
qed

text \<open>
  C4, as the code has it. In every execution the transport is closed at each transition
  into a terminal state and only there: every \<^verbatim>\<open>stateChanged(Succeeded)\<close> and every
  \<^verbatim>\<open>stateChanged(Failed)\<close> is followed at once by \<^verbatim>\<open>transport->close()\<close>, and the
  transport is closed as many times as such a transition was made. That is not always
  once: nothing keeps \<^verbatim>\<open>setError\<close> from running on a transfer that is already
  terminal, and a transfer that never finishes never closes the transport.
\<close>

theorem transport_closed_at_each_terminal_transition:
  assumes "run e evs (TransferPrivate b) = Inr s"
  shows "closes_at_terminal (trace s) \<and> closes (trace s) = terminal_changes (trace s)"
proof -
  from run_closes_at_terminal [OF assms] have "closes_at_terminal (trace s)"
    by (auto simp: TransferPrivate_def)
  with closes_at_terminal_count show ?thesis by blast
qed

text \<open>The theorem at a receiver whose transport reports an error.\<close>

theorem transport_closed_at_each_terminal_transition_witness:
  "run demo_env [TransportError ''connection reset''] (TransferPrivate None)
     = Inr (onError ''connection reset'' (TransferPrivate None))
   \<and> closes (trace (onError ''connection reset'' (TransferPrivate None))) = 1
   \<and> terminal_changes (trace (onError ''connection reset'' (TransferPrivate None))) = 1"
proof -
  let ?s = "onError ''connection reset'' (TransferPrivate None)"
  have h1: "run demo_env [TransportError ''connection reset''] (TransferPrivate None) = Inr ?s"
    by simp
  have h2: "terminal_changes (trace ?s) = 1"
    by (simp add: terminal_changes_def onError_def trace_setError TransferPrivate_def)
  from transport_closed_at_each_terminal_transition [OF h1] h1 h2 show ?thesis
    by simp
qed

text \<open>
  C4 as the specification states it fails: two calls of \<^verbatim>\<open>cancel()\<close> close the
  transport twice.
\<close>

theorem transport_closed_twice:
  "closes (trace (cancel (cancel (TransferPrivate None)))) = 2"
  by (simp add: closes_def cancel_def trace_setError TransferPrivate_def)

subsection \<open>Closing the current item\<close>

lemmas run_defs =
  onPacketReceived_def onPacketSent_def onConnected_def TransferPrivate_def handler_defs
  demo_env_def demo_parse_def demo_handler_def jvalue_def contains_def Let_def emit_def
  setSuccess_def setError_def cancel_def onError_def item_close_def
  toLongLong_def toInt_def parse_integer_def trimmed_def is_space_def digit_of_def


















subsection \<open>The empty bundle\<close>

text \<open>
  C6 does not hold of the code. A receiver that is told of 0 items goes to
  \<^verbatim>\<open>ItemHeader\<close> and waits: it sends no Success packet and stays \<^verbatim>\<open>InProgress\<close>
  (\<^verbatim>\<open>itemIndex == itemCount\<close> is only tested in \<^verbatim>\<open>processNext\<close>, after an item). A
  sender with an empty bundle sends the transfer header and goes to \<^verbatim>\<open>ItemHeader\<close> too;
  at the next \<^verbatim>\<open>packetSent\<close> it fetches the item of row 0, which does not exist, and
  calls \<^verbatim>\<open>open\<close> on the null pointer.
\<close>

theorem empty_bundle_does_not_succeed:
  \<open>(case run demo_env
           [PacketReceived \<lparr>ptype = Json, content = ''{"name":"beta","count":"0","size":"0"}''\<rparr>]
           (TransferPrivate None) of
      Inl f \<Rightarrow> False
    | Inr s \<Rightarrow>
        state s = InProgress \<and> protocolState s = ItemHeader \<and> itemCount s = 0
        \<and> trace s = [DeviceNameChanged ''beta''])
   \<and> run demo_env [Connected] (TransferPrivate (Some \<lparr>items = [], totalSize = 0\<rparr>))
       = Inr ((TransferPrivate (Some \<lparr>items = [], totalSize = 0\<rparr>))
               \<lparr>state := InProgress, protocolState := ItemHeader,
                trace := [StateChanged InProgress, SendPacket \<lparr>ptype = Json, content = ''{}''\<rparr>]\<rparr>)
   \<and> run demo_env [Connected, PacketSent] (TransferPrivate (Some \<lparr>items = [], totalSize = 0\<rparr>))
       = Inl NullDeref\<close>
  by (simp add: run_defs item_at_def rowCount_def)

subsection \<open>The progress\<close>

text \<open>
  Two values of the model, for orientation: \<open>2\<^sup>5\<^sup>3 + 1\<close> is not a double and is
  rounded to \<open>2\<^sup>5\<^sup>3\<close>, and one third of the way is 33 percent.
\<close>

lemma to_double_example: "to_double 9007199254740993 = 9007199254740992"
  by (simp add: double_defs compute_bitlen)

lemma percent_example: "percent 1 3 = Inr 33"
  by (simp add: double_defs compute_bitlen)

text \<open>
  The guard of \<^verbatim>\<open>updateProgress\<close> excludes only a total of 0: with a negative total (a
  header whose \<^verbatim>\<open>size\<close> is negative) the quotient is negative and is truncated towards
  zero.
\<close>

lemma percent_negative_total: "percent 5 (- 1) = Inr (- 500)"
  by (simp add: double_defs compute_bitlen)

text \<open>
  Integers below \<open>2\<^sup>5\<^sup>3\<close> are doubles, rounding moves a positive number by at most
  its \<open>2\<^sup>5\<^sup>3\<close>-th part, and so the truncated quotient of two such integers is their
  integer quotient.
\<close>

lemma round_even_int [simp]: "round_even (of_int k) = k"
  by (simp add: round_even_def)

lemma round_even_error: "\<bar>of_int (round_even y) - y\<bar> \<le> 1 / 2"
proof -
  have "of_int \<lfloor>y\<rfloor> \<le> y" "y < of_int \<lfloor>y\<rfloor> + 1" by linarith+
  then show ?thesis
    by (auto simp: round_even_def Let_def)
qed

lemma binade_lower: "0 < x \<Longrightarrow> 2 powi (binade x) \<le> x"
proof (cases "1 \<le> x")
  case True
  then have pos: "0 < \<lfloor>x\<rfloor>" by linarith
  from bitlen_bounds [OF pos] have "2 ^ nat (bitlen \<lfloor>x\<rfloor> - 1) \<le> \<lfloor>x\<rfloor>" by simp
  then have "(2::real) ^ nat (bitlen \<lfloor>x\<rfloor> - 1) \<le> of_int \<lfloor>x\<rfloor>"
    by (metis of_int_le_iff of_int_numeral of_int_power)
  also have "\<dots> \<le> x" by linarith
  finally have "(2::real) ^ nat (bitlen \<lfloor>x\<rfloor> - 1) \<le> x" .
  moreover from pos have "1 \<le> bitlen \<lfloor>x\<rfloor>"
    by (simp add: bitlen_alt_def)
  ultimately show ?thesis using True
    by (simp add: binade_def power_int_def)
next
  case False
  assume "0 < x"
  with False have inv: "1 < 1 / x" by simp
  define m where "m = \<lceil>1 / x\<rceil> - 1"
  from inv have pos: "0 < m" unfolding m_def by linarith
  from bitlen_bounds [OF pos] have "m < 2 ^ nat (bitlen m)" by simp
  then have "m + 1 \<le> 2 ^ nat (bitlen m)" by simp
  then have "of_int (m + 1) \<le> (2::real) ^ nat (bitlen m)"
    by (metis of_int_le_iff of_int_numeral of_int_power)
  moreover have "1 / x \<le> of_int (m + 1)" unfolding m_def by simp
  ultimately have "1 / x \<le> (2::real) ^ nat (bitlen m)" by linarith
  with \<open>0 < x\<close> have "1 / (2::real) ^ nat (bitlen m) \<le> x"
    by (simp add: field_simps)
  moreover from pos have "1 \<le> bitlen m"
    by (simp add: bitlen_alt_def)
  ultimately show ?thesis using False
    by (simp add: binade_def m_def [symmetric] power_int_def field_simps)
qed


lemma binade_upper: "0 < x \<Longrightarrow> x < 2 powi (binade x + 1)"
proof (cases "1 \<le> x")
  case True
  then have pos: "0 < \<lfloor>x\<rfloor>" by linarith
  from bitlen_bounds [OF pos] have "\<lfloor>x\<rfloor> < 2 ^ nat (bitlen \<lfloor>x\<rfloor>)" by simp
  then have "\<lfloor>x\<rfloor> + 1 \<le> 2 ^ nat (bitlen \<lfloor>x\<rfloor>)" by simp
  then have "of_int (\<lfloor>x\<rfloor> + 1) \<le> (2::real) ^ nat (bitlen \<lfloor>x\<rfloor>)"
    by (metis of_int_le_iff of_int_numeral of_int_power)
  moreover have "x < of_int (\<lfloor>x\<rfloor> + 1)" by linarith
  ultimately have "x < (2::real) ^ nat (bitlen \<lfloor>x\<rfloor>)" by linarith
  moreover have "0 \<le> bitlen \<lfloor>x\<rfloor>" by (rule bitlen_nonneg)
  ultimately show ?thesis using True
    by (simp add: binade_def power_int_def)
next
  case False
  assume x: "0 < x"
  with False have inv: "1 < 1 / x" by simp
  define m where "m = \<lceil>1 / x\<rceil> - 1"
  from inv have pos: "0 < m" unfolding m_def by linarith
  from bitlen_bounds [OF pos] have "2 ^ nat (bitlen m - 1) \<le> m" by simp
  then have "(2::real) ^ nat (bitlen m - 1) \<le> of_int m"
    by (metis of_int_le_iff of_int_numeral of_int_power)
  moreover have "of_int m < 1 / x" unfolding m_def by linarith
  ultimately have "(2::real) ^ nat (bitlen m - 1) < 1 / x" by linarith
  with x have "x < 1 / (2::real) ^ nat (bitlen m - 1)"
    by (simp add: field_simps)
  moreover from pos have "1 \<le> bitlen m"
    by (simp add: bitlen_alt_def)
  moreover have "- bitlen m + 1 = - (bitlen m - 1)" by simp
  ultimately show ?thesis using False
    by (simp add: binade_def m_def [symmetric] power_int_def field_simps)
qed

lemma bitlen_le_53: "0 < k \<Longrightarrow> k < 2 ^ 53 \<Longrightarrow> 1 \<le> bitlen k \<and> bitlen k \<le> 53"
proof -
  assume k: "0 < k" "k < 2 ^ 53"
  from bitlen_bounds [OF k(1)] have "(2::int) ^ nat (bitlen k - 1) \<le> k" by simp
  with k(2) have "(2::int) ^ nat (bitlen k - 1) < 2 ^ 53" by linarith
  then have "nat (bitlen k - 1) < 53"
    using power_less_imp_less_exp [of "2::int" "nat (bitlen k - 1)" 53] by simp
  moreover from k(1) have "1 \<le> bitlen k" by (simp add: bitlen_alt_def)
  ultimately show ?thesis by linarith
qed

lemma to_double_int: "0 \<le> k \<Longrightarrow> k < 2 ^ 53 \<Longrightarrow> to_double (of_int k) = of_int k"
proof (cases "k = 0")
  case True
  then show ?thesis by (simp add: to_double_def)
next
  case False
  assume "0 \<le> k" "k < 2 ^ 53"
  with False have k: "0 < k" by simp
  from bitlen_le_53 [OF k \<open>k < 2 ^ 53\<close>] have B: "1 \<le> bitlen k" "bitlen k \<le> 53" by simp_all
  define j where "j = nat (53 - bitlen k)"
  from k have b: "binade (of_int k) = bitlen k - 1"
    by (simp add: binade_def)
  from B have p: "(2::real) powi (bitlen k - 1 - 52) = 1 / 2 ^ j"
    by (simp add: power_int_def j_def field_simps)
  have "of_int k / (1 / (2::real) ^ j) = of_int (k * 2 ^ j)"
    by simp
  then have "round_even (of_int k / (1 / (2::real) ^ j)) = k * 2 ^ j"
    by (simp only: round_even_int)
  with k b p show ?thesis
    by (simp add: to_double_def Let_def)
qed

lemma to_double_error: "0 < x \<Longrightarrow> \<bar>to_double x - x\<bar> \<le> x / 2 ^ 53"
proof -
  assume x: "0 < x"
  define p :: real where "p = 2 powi (binade x - 52)"
  have ppos: "0 < p" by (simp add: p_def)
  have td: "to_double x = of_int (round_even (x / p)) * p"
    using x by (simp add: to_double_def Let_def p_def)
  have "of_int (round_even (x / p)) * p - x = (of_int (round_even (x / p)) - x / p) * p"
    using ppos by (simp add: left_diff_distrib)
  then have "\<bar>of_int (round_even (x / p)) * p - x\<bar> = \<bar>of_int (round_even (x / p)) - x / p\<bar> * p"
    using ppos by (simp add: abs_mult)
  also have "\<dots> \<le> (1 / 2) * p"
    using round_even_error [of "x / p"] ppos by (intro mult_right_mono) simp_all
  also have "(1 / 2) * p = 2 powi (binade x) / 2 ^ 53"
    by (simp add: p_def power_int_diff)
  also have "\<dots> \<le> x / 2 ^ 53"
    using binade_lower [OF x] by (simp add: divide_right_mono)
  finally show ?thesis by (simp add: td)
qed


lemma to_double_quotient:
  assumes "0 \<le> a" and "0 < w" and "a < 2 ^ 53"
  shows "trunc_to_int (to_double (of_int a / of_int w)) = a div w"
proof (cases "a mod w = 0")
  case True
  then have "w dvd a" by (simp add: dvd_eq_mod_eq_0)
  then have "real_of_int a / of_int w = of_int (a div w)"
    by (simp add: real_of_int_div)
  moreover have "0 \<le> a div w" using assms by (simp add: pos_imp_zdiv_nonneg_iff)
  moreover have "a div w \<le> a" using assms zdiv_mono2 [of a 1 w] by simp
  ultimately show ?thesis
    using assms(3) by (simp add: to_double_int trunc_to_int_def)
next
  case False
  define n where "n = a div w"
  define r where "r = a mod w"
  define x :: real where "x = of_int a / of_int w"
  from False assms(2) have r: "1 \<le> r" "r \<le> w - 1"
    unfolding r_def using pos_mod_sign [of w a] pos_mod_bound [of w a] by linarith+
  have "a = n * w + r" by (simp add: n_def r_def)
  then have "real_of_int a = of_int n * of_int w + of_int r"
    by (metis of_int_add of_int_mult)
  with assms(2) have xeq: "x = of_int n + of_int r / of_int w"
    by (simp add: x_def field_simps)
  have n0: "0 \<le> n" using assms by (simp add: n_def pos_imp_zdiv_nonneg_iff)
  from r assms(2) have lo: "1 / real_of_int w \<le> of_int r / of_int w"
    by (simp add: divide_right_mono)
  from r assms(2) have hi: "real_of_int r / of_int w \<le> 1 - 1 / of_int w"
    by (simp add: field_simps)
  from xeq lo n0 assms(2) have xpos: "0 < x"
    by (smt (verit) divide_pos_pos of_int_0_less_iff of_int_nonneg zero_less_one)
  have "real_of_int a < 2 ^ 53" using assms(3)
    by (metis of_int_less_iff of_int_numeral of_int_power)
  with assms(2) have small: "x / 2 ^ 53 < 1 / of_int w"
    by (simp add: x_def field_simps)
  from to_double_error [OF xpos] have "\<bar>to_double x - x\<bar> \<le> x / 2 ^ 53" .
  with small xeq lo hi have "of_int n < to_double x" "to_double x < of_int n + 1"
    by linarith+
  then have "\<lfloor>to_double x\<rfloor> = n" "0 \<le> to_double x"
    using n0 by (linarith, smt (verit) of_int_nonneg)
  then show ?thesis
    by (simp add: trunc_to_int_def x_def n_def)
qed

lemma percent_exact:
  assumes "0 \<le> t" and "0 < w" and "100 * t < 2 ^ 53" and "w < 2 ^ 53"
    and "(100 * t) div w < 2 ^ 31"
  shows "percent t w = Inr ((100 * t) div w)"
proof -
  from assms have "t < 2 ^ 53" by linarith
  with assms(1) have a: "to_double (of_int t) = of_int t" by (rule to_double_int)
  from assms have b: "to_double (of_int w) = of_int w" by (simp add: to_double_int)
  have "100 * real_of_int t = of_int (100 * t)" by simp
  then have m: "to_double (100 * real_of_int t) = of_int (100 * t)"
    using assms(1,3) by (simp only: to_double_int)
  have q: "trunc_to_int (to_double (of_int (100 * t) / of_int w)) = (100 * t) div w"
    using assms by (intro to_double_quotient) simp_all
  have "0 \<le> (100 * t) div w" using assms by (simp add: pos_imp_zdiv_nonneg_iff)
  with q assms(5) show ?thesis
    by (simp add: percent_def Let_def a b m del: of_int_mult of_int_numeral)
qed

lemma progress_values_append [simp]:
  "progress_values (xs @ ys) = progress_values xs @ progress_values ys"
  by (induction xs rule: progress_values.induct) simp_all

lemma last_emitted_append:
  "last_emitted (xs @ ys) =
     (if progress_values ys = [] then last_emitted xs else last (progress_values ys))"
  by (simp add: last_emitted_def)

lemma updateProgress_exact:
  assumes "0 \<le> bytesTransferred t" and "0 \<le> bytesTotal t"
    and "100 * bytesTransferred t < 2 ^ 53" and "bytesTotal t < 2 ^ 53"
    and "(100 * bytesTransferred t) div bytesTotal t < 2 ^ 31"
  shows "updateProgress t =
           Inr (if floor_percent t \<noteq> progress t
                then emit (ProgressChanged (floor_percent t)) (t\<lparr>progress := floor_percent t\<rparr>)
                else t)"
proof (cases "bytesTotal t = 0")
  case True
  then show ?thesis
    by (simp add: updateProgress_def floor_percent_def)
next
  case False
  with assms(2) have pos: "0 < bytesTotal t" by simp
  from percent_exact [OF assms(1) pos assms(3,4,5)] pos show ?thesis
    by (simp add: updateProgress_def floor_percent_def)
qed

lemma updateProgress_tracks:
  assumes "updateProgress t = Inr t'"
  shows "\<exists>xs. trace t' = trace t @ xs \<and>
           progress_values xs = (if progress t' \<noteq> progress t then [progress t'] else [])"
  using assms
  by (auto simp: updateProgress_def split: sum.splits if_splits)

lemma processNext_progress:
  "processNext t = Inr t' \<Longrightarrow>
     bytesTransferred t' = bytesTransferred t \<and> bytesTotal t' = bytesTotal t \<and>
     progress t' = progress t \<and> (\<exists>xs. trace t' = trace t @ xs \<and> progress_values xs = [])"
  by (auto simp: processNext_def Let_def trace_setSuccess split: item_ref.splits if_splits)

lemma sendNext_progress:
  "sendNext t = Inr t' \<Longrightarrow>
     bytesTransferred t' = bytesTransferred t \<and> bytesTotal t' = bytesTotal t \<and>
     progress t' = progress t \<and> (\<exists>xs. trace t' = trace t @ xs \<and> progress_values xs = [])"
  by (auto simp: sendNext_def Let_def split: item_ref.splits if_splits)

lemma processItemContent_unfold:
  assumes "processItemContent p s = Inr s'"
  shows "\<exists>it s3. currentItem s = Item it
           \<and> updateProgress
                (emit (ItemWrite (item_name it) (content p)) s
                   \<lparr>bytesTransferred := bytesTransferred s + int (length (content p)),
                    currentItemBytesTransferred :=
                      currentItemBytesTransferred s + int (length (content p))\<rparr>) = Inr s3
           \<and> (s' = s3 \<or> processNext s3 = Inr s')"
  using assms
  by (auto simp: processItemContent_def Let_def emit_def
      split: item_ref.splits sum.splits if_splits)

lemma sendItemContent_unfold:
  assumes "sendItemContent s = Inr s'"
  shows "\<exists>it s3. currentItem s = Item it
           \<and> updateProgress
                (sendPacket \<lparr>ptype = Binary, content = fst (item_read it)\<rparr>
                   (emit (ItemRead (item_name it)) (s\<lparr>currentItem := Item (snd (item_read it))\<rparr>))
                   \<lparr>bytesTransferred := bytesTransferred s + int (length (fst (item_read it))),
                    currentItemBytesTransferred :=
                      currentItemBytesTransferred s + int (length (fst (item_read it)))\<rparr>) = Inr s3
           \<and> (s' = s3 \<or> sendNext s3 = Inr s')"
  using assms
  by (auto simp: sendItemContent_def Let_def sendPacket_def emit_def
      split: item_ref.splits sum.splits if_splits prod.splits)

lemma accounted_progress:
  assumes up: "updateProgress s2 = Inr s3"
    and nxt: "s' = s3 \<or> (bytesTransferred s' = bytesTransferred s3 \<and> bytesTotal s' = bytesTotal s3
               \<and> progress s' = progress s3
               \<and> (\<exists>xs. trace s' = trace s3 @ xs \<and> progress_values xs = []))"
    and s2: "0 \<le> bytesTransferred s2" "progress s2 = progress s"
      "\<exists>xs. trace s2 = trace s @ xs \<and> progress_values xs = []"
    and range: "in_double_range s'"
  shows "\<exists>xs. trace s' = trace s @ xs \<and> progress_updated s xs s'"
proof -
  from updateProgress_frame [OF up]
  have f: "bytesTransferred s3 = bytesTransferred s2" "bytesTotal s3 = bytesTotal s2"
    by simp_all
  from nxt f have c: "bytesTransferred s' = bytesTransferred s2" "bytesTotal s' = bytesTotal s2"
    by auto
  with range have r2: "0 \<le> bytesTotal s2" "100 * bytesTransferred s2 < 2 ^ 53"
    "bytesTotal s2 < 2 ^ 53" "(100 * bytesTransferred s2) div bytesTotal s2 < 2 ^ 31"
    by (simp_all add: in_double_range_def)
  from updateProgress_exact [OF s2(1) r2] up
  have p3: "progress s3 = floor_percent s2"
    by (auto split: if_splits)
  from c have fp: "floor_percent s' = floor_percent s2"
    by (simp add: floor_percent_def)
  from updateProgress_tracks [OF up] obtain ys where
    ys: "trace s3 = trace s2 @ ys"
      "progress_values ys = (if progress s3 \<noteq> progress s2 then [progress s3] else [])"
    by blast
  from s2(3) obtain xs where xs: "trace s2 = trace s @ xs" "progress_values xs = []"
    by blast
  from nxt obtain zs where zs: "trace s' = trace s3 @ zs" "progress_values zs = []"
    "progress s' = progress s3"
    by auto
  from xs ys zs have "trace s' = trace s @ (xs @ ys @ zs)"
    "progress_values (xs @ ys @ zs) = (if progress s3 \<noteq> progress s2 then [progress s3] else [])"
    by simp_all
  with zs(3) p3 fp s2(2) show ?thesis
    unfolding progress_updated_def by metis
qed

lemma processItemContent_progress:
  assumes "processItemContent p s = Inr s'" and "0 \<le> bytesTransferred s"
    and "in_double_range s'"
  shows "\<exists>xs. trace s' = trace s @ xs \<and> progress_updated s xs s'"
proof -
  from processItemContent_unfold [OF assms(1)] obtain it s3 where
    u0: "currentItem s = Item it" and
    u: "updateProgress
          (emit (ItemWrite (item_name it) (content p)) s
             \<lparr>bytesTransferred := bytesTransferred s + int (length (content p)),
              currentItemBytesTransferred :=
                currentItemBytesTransferred s + int (length (content p))\<rparr>) = Inr s3"
      "s' = s3 \<or> processNext s3 = Inr s'"
    by blast
  show ?thesis
  proof (rule accounted_progress [OF u(1) _ _ _ _ assms(3)])
    from u(2) processNext_progress [of s3 s']
    show "s' = s3 \<or> (bytesTransferred s' = bytesTransferred s3 \<and> bytesTotal s' = bytesTotal s3
               \<and> progress s' = progress s3
               \<and> (\<exists>xs. trace s' = trace s3 @ xs \<and> progress_values xs = []))"
      by blast
  qed (use assms(2) in \<open>simp_all add: emit_def\<close>)
qed

lemma sendItemContent_progress:
  assumes "sendItemContent s = Inr s'" and "0 \<le> bytesTransferred s"
    and "in_double_range s'"
  shows "\<exists>xs. trace s' = trace s @ xs \<and> progress_updated s xs s'"
proof -
  from sendItemContent_unfold [OF assms(1)] obtain it s3 where
    u0: "currentItem s = Item it" and
    u: "updateProgress
          (sendPacket \<lparr>ptype = Binary, content = fst (item_read it)\<rparr>
             (emit (ItemRead (item_name it)) (s\<lparr>currentItem := Item (snd (item_read it))\<rparr>))
             \<lparr>bytesTransferred := bytesTransferred s + int (length (fst (item_read it))),
              currentItemBytesTransferred :=
                currentItemBytesTransferred s + int (length (fst (item_read it)))\<rparr>) = Inr s3"
      "s' = s3 \<or> sendNext s3 = Inr s'"
    by blast
  show ?thesis
  proof (rule accounted_progress [OF u(1) _ _ _ _ assms(3)])
    from u(2) sendNext_progress [of s3 s']
    show "s' = s3 \<or> (bytesTransferred s' = bytesTransferred s3 \<and> bytesTotal s' = bytesTotal s3
               \<and> progress s' = progress s3
               \<and> (\<exists>xs. trace s' = trace s3 @ xs \<and> progress_values xs = []))"
      by blast
  qed (use assms(2) in \<open>simp_all add: emit_def sendPacket_def\<close>)
qed

lemma quiet_progress_step:
  "quiet s s' \<Longrightarrow> \<exists>xs. trace s' = trace s @ xs \<and> progress_step ev s xs s'"
  by (auto simp: quiet_def progress_step_def)

lemma quiet_refl: "quiet s s"
  by (simp add: quiet_def)

lemma quiet_setError: "quiet s (setError m b s)"
  by (simp add: quiet_def trace_setError)

lemma quiet_setSuccess: "quiet s (setSuccess b s)"
  by (simp add: quiet_def trace_setSuccess)

lemma quiet_processTransferHeader: "quiet s (processTransferHeader e p s)"
  by (auto simp: quiet_def processTransferHeader_def Let_def trace_setError emit_def
      split: sum.splits)

lemma quiet_processItemHeader: "processItemHeader e p s = Inr s' \<Longrightarrow> quiet s s'"
  by (auto simp: quiet_def processItemHeader_def Let_def trace_setError item_open_def
      split: sum.splits option.splits if_splits dest!: processNext_progress)

lemma quiet_sendTransferHeader: "sendTransferHeader e s = Inr s' \<Longrightarrow> quiet s s'"
  by (auto simp: quiet_def sendTransferHeader_def Let_def sendPacket_def emit_def
      split: option.splits)

lemma quiet_sendItemHeader: "sendItemHeader e s = Inr s' \<Longrightarrow> quiet s s'"
  by (auto simp: quiet_def sendItemHeader_def Let_def trace_setError item_open_def
      sendPacket_def
      split: option.splits if_splits dest!: sendNext_progress)

lemma accounted_tracks:
  assumes up: "updateProgress s2 = Inr s3"
    and nxt: "s' = s3 \<or> (bytesTransferred s' = bytesTransferred s3 \<and> bytesTotal s' = bytesTotal s3
               \<and> progress s' = progress s3
               \<and> (\<exists>xs. trace s' = trace s3 @ xs \<and> progress_values xs = []))"
    and s2: "bytesTransferred s \<le> bytesTransferred s2" "progress s2 = progress s"
      "\<exists>xs. trace s2 = trace s @ xs \<and> progress_values xs = []"
    and acc: "accounts_bytes ev s"
  shows "\<exists>xs. trace s' = trace s @ xs \<and> progress_step ev s xs s'"
proof -
  from updateProgress_frame [OF up] have f: "bytesTransferred s3 = bytesTransferred s2"
    by simp
  from updateProgress_tracks [OF up] obtain ys where
    ys: "trace s3 = trace s2 @ ys"
      "progress_values ys = (if progress s3 \<noteq> progress s2 then [progress s3] else [])"
    by blast
  from s2(3) obtain xs where xs: "trace s2 = trace s @ xs" "progress_values xs = []"
    by blast
  from nxt obtain zs where zs: "trace s' = trace s3 @ zs" "progress_values zs = []"
    "progress s' = progress s3" "bytesTransferred s' = bytesTransferred s3"
    by auto
  from xs ys zs have "trace s' = trace s @ (xs @ ys @ zs)"
    "progress_values (xs @ ys @ zs) = (if progress s3 \<noteq> progress s2 then [progress s3] else [])"
    by simp_all
  then show ?thesis
    using zs(3,4) f s2(1,2) acc unfolding progress_step_def by metis
qed

lemma processItemContent_tracks:
  assumes "processItemContent p s = Inr s'" and "accounts_bytes ev s"
  shows "\<exists>xs. trace s' = trace s @ xs \<and> progress_step ev s xs s'"
proof -
  from processItemContent_unfold [OF assms(1)] obtain it s3 where
    u0: "currentItem s = Item it" and
    u: "updateProgress
          (emit (ItemWrite (item_name it) (content p)) s
             \<lparr>bytesTransferred := bytesTransferred s + int (length (content p)),
              currentItemBytesTransferred :=
                currentItemBytesTransferred s + int (length (content p))\<rparr>) = Inr s3"
      "s' = s3 \<or> processNext s3 = Inr s'"
    by blast
  show ?thesis
  proof (rule accounted_tracks [OF u(1) _ _ _ _ assms(2)])
    from u(2) processNext_progress [of s3 s']
    show "s' = s3 \<or> (bytesTransferred s' = bytesTransferred s3 \<and> bytesTotal s' = bytesTotal s3
               \<and> progress s' = progress s3
               \<and> (\<exists>xs. trace s' = trace s3 @ xs \<and> progress_values xs = []))"
      by blast
  qed (simp_all add: emit_def)
qed

lemma sendItemContent_tracks:
  assumes "sendItemContent s = Inr s'" and "accounts_bytes ev s"
  shows "\<exists>xs. trace s' = trace s @ xs \<and> progress_step ev s xs s'"
proof -
  from sendItemContent_unfold [OF assms(1)] obtain it s3 where
    u0: "currentItem s = Item it" and
    u: "updateProgress
          (sendPacket \<lparr>ptype = Binary, content = fst (item_read it)\<rparr>
             (emit (ItemRead (item_name it)) (s\<lparr>currentItem := Item (snd (item_read it))\<rparr>))
             \<lparr>bytesTransferred := bytesTransferred s + int (length (fst (item_read it))),
              currentItemBytesTransferred :=
                currentItemBytesTransferred s + int (length (fst (item_read it)))\<rparr>) = Inr s3"
      "s' = s3 \<or> sendNext s3 = Inr s'"
    by blast
  show ?thesis
  proof (rule accounted_tracks [OF u(1) _ _ _ _ assms(2)])
    from u(2) sendNext_progress [of s3 s']
    show "s' = s3 \<or> (bytesTransferred s' = bytesTransferred s3 \<and> bytesTotal s' = bytesTotal s3
               \<and> progress s' = progress s3
               \<and> (\<exists>xs. trace s' = trace s3 @ xs \<and> progress_values xs = []))"
      by blast
  qed (simp_all add: emit_def sendPacket_def)
qed

lemma onPacketSent_quiet:
  assumes "onPacketSent e s = Inr s'"
    and "\<not> (direction s = Send \<and> protocolState s = ItemContent)"
  shows "quiet s s'"
proof (cases "direction s")
  case Receive
  with assms show ?thesis by (simp add: onPacketSent_def quiet_refl)
next
  case Send
  with assms show ?thesis
    by (cases "protocolState s")
       (auto simp: onPacketSent_def quiet_refl
          dest: quiet_sendTransferHeader quiet_sendItemHeader)
qed

lemma onPacketReceived_quiet:
  assumes "onPacketReceived e p s = Inr s'"
    and "\<not> (direction s = Receive \<and> protocolState s = ItemContent \<and> ptype p \<noteq> Error)"
  shows "quiet s s'"
proof (cases "ptype p = Error \<or> direction s = Send")
  case True
  with assms(1) show ?thesis
    by (auto simp: onPacketReceived_def quiet_setError quiet_setSuccess split: if_splits)
next
  case False
  then have r: "ptype p \<noteq> Error" "direction s = Receive"
    by (simp_all, cases "direction s", simp_all)
  with assms show ?thesis
    by (cases "protocolState s")
       (auto simp: onPacketReceived_def quiet_refl quiet_processTransferHeader
          dest: quiet_processItemHeader)
qed

lemma step_progress_step:
  assumes "step e ev s = Inr s'"
  shows "\<exists>xs. trace s' = trace s @ xs \<and> progress_step ev s xs s'"
proof (cases "accounts_bytes ev s")
  case True
  show ?thesis
  proof (cases ev)
    case Connected
    let ?s0 = "emit (StateChanged InProgress) (s\<lparr>state := InProgress\<rparr>)"
    from True Connected assms have "sendItemContent ?s0 = Inr s'"
      by (simp add: onConnected_def onPacketSent_def)
    moreover from True Connected have "accounts_bytes ev ?s0" by simp
    ultimately obtain xs where
      "trace s' = trace ?s0 @ xs" "progress_step ev ?s0 xs s'"
      using sendItemContent_tracks by blast
    with True have "trace s' = trace s @ StateChanged InProgress # xs
        \<and> progress_step ev s (StateChanged InProgress # xs) s'"
      by (simp add: progress_step_def emit_def)
    then show ?thesis by blast
  next
    case (PacketReceived p)
    with True assms have "processItemContent p s = Inr s'"
      by (simp add: onPacketReceived_def)
    then show ?thesis using True by (rule processItemContent_tracks)
  next
    case PacketSent
    with True assms have "sendItemContent s = Inr s'"
      by (simp add: onPacketSent_def)
    then show ?thesis using True by (rule sendItemContent_tracks)
  next
    case (TransportError m)
    with True show ?thesis by simp
  next
    case Cancel
    with True show ?thesis by simp
  qed
next
  case False
  have "quiet s s'"
  proof (cases ev)
    case Connected
    show ?thesis
    proof (cases "direction s = Send")
      case Send: True
      let ?s0 = "emit (StateChanged InProgress) (s\<lparr>state := InProgress\<rparr>)"
      from Send Connected assms have "onPacketSent e ?s0 = Inr s'"
        by (simp add: onConnected_def)
      moreover from False Connected
      have "\<not> (direction ?s0 = Send \<and> protocolState ?s0 = ItemContent)" by simp
      ultimately have "quiet ?s0 s'" by (rule onPacketSent_quiet)
      then show ?thesis by (auto simp: quiet_def emit_def)
    next
      case False
      with Connected assms show ?thesis by (simp add: quiet_refl)
    qed
  next
    case (PacketReceived p)
    with False assms show ?thesis by (simp add: onPacketReceived_quiet)
  next
    case PacketSent
    with False assms show ?thesis by (simp add: onPacketSent_quiet)
  next
    case (TransportError m)
    with assms show ?thesis by (auto simp: onError_def quiet_setError)
  next
    case Cancel
    with assms show ?thesis by (auto simp: cancel_def quiet_setError)
  qed
  then show ?thesis by (rule quiet_progress_step)
qed

lemma step_progress_tracked:
  assumes "step e ev s = Inr s'" and "progress_tracked s"
  shows "progress_tracked s'"
proof -
  from step_progress_step [OF assms(1)] obtain xs where
    "trace s' = trace s @ xs" "progress_step ev s xs s'" by blast
  with assms(2) show ?thesis
    by (auto simp: progress_tracked_def progress_step_def last_emitted_append split: if_splits)
qed

lemma run_progress_tracked:
  "run e evs s = Inr s' \<Longrightarrow> progress_tracked s \<Longrightarrow> progress_tracked s'"
proof (induction evs arbitrary: s)
  case Nil
  then show ?case by simp
next
  case (Cons ev evs)
  from Cons.prems(1) obtain s1 where "step e ev s = Inr s1" "run e evs s1 = Inr s'"
    by (auto split: sum.splits)
  with Cons.IH Cons.prems(2) step_progress_tracked show ?case by blast
qed

lemma step_floor_percent:
  assumes "step e ev s = Inr s'" and "accounts_bytes ev s" and "0 \<le> bytesTransferred s"
    and "in_double_range s'"
  shows "progress s' = floor_percent s'"
proof (cases ev)
  case Connected
  let ?s0 = "emit (StateChanged InProgress) (s\<lparr>state := InProgress\<rparr>)"
  from assms(1,2) Connected have "sendItemContent ?s0 = Inr s'"
    by (simp add: onConnected_def onPacketSent_def)
  from sendItemContent_progress [OF this _ assms(4)] assms(3) show ?thesis
    by (auto simp: progress_updated_def)
next
  case (PacketReceived p)
  with assms(1,2) have "processItemContent p s = Inr s'"
    by (simp add: onPacketReceived_def)
  from processItemContent_progress [OF this assms(3,4)] show ?thesis
    by (auto simp: progress_updated_def)
next
  case PacketSent
  with assms(1,2) have "sendItemContent s = Inr s'"
    by (simp add: onPacketSent_def)
  from sendItemContent_progress [OF this assms(3,4)] show ?thesis
    by (auto simp: progress_updated_def)
next
  case (TransportError m)
  with assms(2) show ?thesis by simp
next
  case Cancel
  with assms(2) show ?thesis by simp
qed

text \<open>
  C7, as the code has it. \<^verbatim>\<open>updateProgress\<close> computes the percentage in double
  precision. In every execution the stored progress is the value announced last (0
  before the first \<^verbatim>\<open>progressChanged\<close>), and a step emits \<^verbatim>\<open>progressChanged\<close>, once and
  with the new value, exactly when the progress changes. The steps that account bytes
  are the sender's \<^verbatim>\<open>sendItemContent\<close> and the receiver's \<^verbatim>\<open>processItemContent\<close>; no
  other step changes \<^verbatim>\<open>bytesTransferred\<close> or the progress. After such a step, as long as
  \<^verbatim>\<open>bytesTotal\<close> and 100 times \<^verbatim>\<open>bytesTransferred\<close> are below \<open>2\<^sup>5\<^sup>3\<close> (about 90
  terabytes transferred), the progress is \<open>\<lfloor>100 \<times> bytesTransferred / bytesTotal\<rfloor>\<close>
  when \<^verbatim>\<open>bytesTotal\<close> is positive and 0 when it is 0.
\<close>

theorem progress_after_byte_accounting:
  assumes "run e evs (TransferPrivate b) = Inr s" and "step e ev s = Inr s'"
    and "0 \<le> bytesTotal s'" and "bytesTotal s' < 2 ^ 53"
    and "100 * bytesTransferred s' < 2 ^ 53"
    and "(100 * bytesTransferred s') div bytesTotal s' < 2 ^ 31"
  shows "progress s = last_emitted (trace s)
       \<and> progress_values (new_actions s s') =
           (if progress s' \<noteq> progress s then [progress s'] else [])
       \<and> (if accounts_bytes ev s
           then progress s' =
                  (if 0 < bytesTotal s' then (100 * bytesTransferred s') div bytesTotal s' else 0)
           else bytesTransferred s' = bytesTransferred s \<and> progress s' = progress s)"
proof -
  have "progress_tracked (TransferPrivate b)"
    by (simp add: progress_tracked_def TransferPrivate_def last_emitted_def)
  with assms(1) have t: "progress_tracked s" by (rule run_progress_tracked)
  from step_progress_step [OF assms(2)] obtain xs where
    xs: "trace s' = trace s @ xs" "progress_step ev s xs s'" by blast
  then have n: "new_actions s s' = xs" by simp
  have r: "in_double_range s'"
    using assms(3-6) by (simp add: in_double_range_def)
  have "accounts_bytes ev s \<longrightarrow> progress s' = floor_percent s'"
    using step_floor_percent [OF assms(2) _ _ r] t by (simp add: progress_tracked_def)
  with t xs(2) show ?thesis
    unfolding n by (simp add: progress_tracked_def progress_step_def floor_percent_def)
qed

text \<open>
  The theorem at a receiver that has taken the transfer header and the header of a file
  of five bytes: the packet with the five bytes takes the progress from 0 to 100.
\<close>

theorem progress_after_byte_accounting_witness:
  \<open>\<exists>s s'. run demo_env
           [PacketReceived \<lparr>ptype = Json, content = ''{"name":"beta","count":"1","size":"5"}''\<rparr>,
            PacketReceived \<lparr>ptype = Json, content = ''{"name":"a.txt","size":"5"}''\<rparr>]
           (TransferPrivate None) = Inr s
         \<and> step demo_env (PacketReceived \<lparr>ptype = Binary, content = ''hello''\<rparr>) s = Inr s'
         \<and> accounts_bytes (PacketReceived \<lparr>ptype = Binary, content = ''hello''\<rparr>) s
         \<and> bytesTransferred s' = 5 \<and> bytesTotal s' = 5 \<and> progress s = 0
         \<and> progress s' = 100
         \<and> progress_values (new_actions s s') = [100]\<close>
proof -
  let ?evs = \<open>[PacketReceived \<lparr>ptype = Json, content = ''{"name":"beta","count":"1","size":"5"}''\<rparr>,
            PacketReceived \<lparr>ptype = Json, content = ''{"name":"a.txt","size":"5"}''\<rparr>]\<close>
  let ?ev = \<open>PacketReceived \<lparr>ptype = Binary, content = ''hello''\<rparr>\<close>
  have "\<exists>s s'. run demo_env ?evs (TransferPrivate None) = Inr s
          \<and> step demo_env ?ev s = Inr s' \<and> accounts_bytes ?ev s
          \<and> bytesTransferred s' = 5 \<and> bytesTotal s' = 5 \<and> progress s = 0"
    by (simp add: run_defs double_defs compute_bitlen)
  then obtain s s' where r: "run demo_env ?evs (TransferPrivate None) = Inr s"
    "step demo_env ?ev s = Inr s'" "accounts_bytes ?ev s"
    "bytesTransferred s' = 5" "bytesTotal s' = 5" "progress s = 0"
    by blast
  have h: "0 \<le> bytesTotal s'" "bytesTotal s' < 2 ^ 53" "100 * bytesTransferred s' < 2 ^ 53"
    "(100 * bytesTransferred s') div bytesTotal s' < 2 ^ 31"
    using r(4,5) by simp_all
  from progress_after_byte_accounting [OF r(1,2) h] r(3,4,5,6)
  have "progress s' = 100" "progress_values (new_actions s s') = [100]"
    by simp_all
  with r show ?thesis by blast
qed

text \<open>
  C7 as the specification states it fails where the doubles are no longer exact: with
  \<open>2\<^sup>5\<^sup>3\<close> of \<open>2\<^sup>5\<^sup>3 + 1\<close> bytes transferred the total is rounded to \<open>2\<^sup>5\<^sup>3\<close> and the
  progress is 100, while \<open>\<lfloor>100 \<times> 2\<^sup>5\<^sup>3 / (2\<^sup>5\<^sup>3 + 1)\<rfloor>\<close> is 99.
\<close>

theorem progress_rounds_up_beyond_double_range:
  "updateProgress
     ((TransferPrivate None)\<lparr>bytesTransferred := 9007199254740992,
                             bytesTotal := 9007199254740993\<rparr>)
   = Inr (emit (ProgressChanged 100)
       ((TransferPrivate None)\<lparr>bytesTransferred := 9007199254740992,
                               bytesTotal := 9007199254740993, progress := 100\<rparr>))
   \<and> (100 * 9007199254740992) div 9007199254740993 = (99::int)"
  by (simp add: updateProgress_def TransferPrivate_def double_defs compute_bitlen)

subsection \<open>A single small file, end to end\<close>

text \<open>
  The model on the simplest transfer: one file of five bytes. The sender is driven by
  the connection, two \<^verbatim>\<open>packetSent\<close> signals and the receiver's Success packet; the
  receiver by the three packets the sender sent. Both succeed, with the progress at 100.
\<close>

lemma single_file_sender:
  \<open>(case run demo_env
           [Connected, PacketSent, PacketSent, PacketReceived \<lparr>ptype = Success, content = []\<rparr>]
           (TransferPrivate (Some \<lparr>items = [\<lparr>item_name = ''a.txt'', item_size = 5,
              can_open = True, chunks = [''hello''], is_open = False\<rparr>], totalSize = 5\<rparr>)) of
      Inl f \<Rightarrow> False
    | Inr s \<Rightarrow>
        state s = Succeeded \<and> progress s = 100 \<and> bytesTransferred s = 5
        \<and> trace s =
            [StateChanged InProgress,
             SendPacket \<lparr>ptype = Json, content = ''{}''\<rparr>,
             ItemOpen ''a.txt'',
             SendPacket \<lparr>ptype = Json, content = ''{}''\<rparr>,
             ItemRead ''a.txt'',
             SendPacket \<lparr>ptype = Binary, content = ''hello''\<rparr>,
             ProgressChanged 100,
             ItemClose ''a.txt'',
             StateChanged Succeeded,
             CloseTransport])\<close>
  by (simp add: run_defs double_defs compute_bitlen item_at_def rowCount_def default_send_def)

lemma single_file_receiver:
  \<open>(case run demo_env
           [PacketReceived \<lparr>ptype = Json, content = ''{"name":"beta","count":"1","size":"5"}''\<rparr>,
            PacketReceived \<lparr>ptype = Json, content = ''{"name":"a.txt","size":"5"}''\<rparr>,
            PacketReceived \<lparr>ptype = Binary, content = ''hello''\<rparr>]
           (TransferPrivate None) of
      Inl f \<Rightarrow> False
    | Inr s \<Rightarrow>
        state s = Succeeded \<and> progress s = 100 \<and> bytesTransferred s = 5
        \<and> trace s =
            [DeviceNameChanged ''beta'',
             FindHandler ''file'',
             ItemOpen ''a.txt'',
             ItemWrite ''a.txt'' ''hello'',
             ProgressChanged 100,
             ItemClose ''a.txt'',
             ItemDelete ''a.txt'',
             SendPacket \<lparr>ptype = Success, content = []\<rparr>,
             StateChanged Succeeded,
             CloseTransport])\<close>
  by (simp add: run_defs double_defs compute_bitlen)

end
